theory Spec2Isabelle
  imports Complex_Main
begin

section \<open>Data model of game.js\<close>

text \<open>
  A mark is one of the two strings \<open>'X'\<close> (\<open>MarkX\<close>) and \<open>'O'\<close> (\<open>MarkO\<close>). A board cell holds a mark or
  \<open>null\<close> (\<open>None\<close>). The board is a JavaScript array; reading it outside its range
  gives \<open>undefined\<close>, which is neither \<open>null\<close> nor a mark, so a read returns an
  optional cell whose \<open>None\<close> stands for \<open>undefined\<close>.
\<close>

datatype mark = MarkX | MarkO

type_synonym cell = "mark option"
type_synonym board = "cell list"
type_synonym line = "nat \<times> nat \<times> nat"

definition boardGet :: "board \<Rightarrow> nat \<Rightarrow> cell option" where
  "boardGet b i = (if i < length b then Some (b ! i) else None)"

text \<open>\<open>board[i] === null\<close> for a loop index.\<close>

definition isNull :: "board \<Rightarrow> nat \<Rightarrow> bool" where
  "isNull b i = (boardGet b i = Some None)"

text \<open>
  An index handed around as a JavaScript value: a number (\<open>Some i\<close>) or one of
  \<open>null\<close>/\<open>undefined\<close> (\<open>None\<close>), which \<open>aiRandomMove\<close> and \<open>minimax\<close> can return.
  \<open>GAME.board[idx] !== null\<close> is true for every index that is not a number or lies
  outside the array.
\<close>

definition idxIsNull :: "board \<Rightarrow> int option \<Rightarrow> bool" where
  "idxIsNull b idx =
     (case idx of None \<Rightarrow> False
      | Some i \<Rightarrow> 0 \<le> i \<and> isNull b (nat i))"

definition other :: "mark \<Rightarrow> mark" where
  "other m = (if m = MarkX then MarkO else MarkX)"

definition markStr :: "mark \<Rightarrow> string" where
  "markStr m = (case m of MarkX \<Rightarrow> ''X'' | MarkO \<Rightarrow> ''O'')"

text \<open>JavaScript numbers that occur as scores: integers and the two infinities.\<close>

datatype score = NegInf | Fin int | PosInf

instantiation score :: linorder
begin

definition less_eq_score :: "score \<Rightarrow> score \<Rightarrow> bool" where
  "less_eq_score a b =
     (case a of NegInf \<Rightarrow> True
      | Fin x \<Rightarrow> (case b of NegInf \<Rightarrow> False | Fin y \<Rightarrow> x \<le> y | PosInf \<Rightarrow> True)
      | PosInf \<Rightarrow> (case b of PosInf \<Rightarrow> True | _ \<Rightarrow> False))"

definition less_score :: "score \<Rightarrow> score \<Rightarrow> bool" where
  "less_score a b = (a \<le> b \<and> \<not> b \<le> (a::score))"

instance
proof
  fix x y z :: score
  show "(x < y) = (x \<le> y \<and> \<not> y \<le> x)"
    by (simp add: less_score_def)
  show "x \<le> x"
    by (cases x) (simp_all add: less_eq_score_def)
  show "x \<le> y \<Longrightarrow> y \<le> z \<Longrightarrow> x \<le> z"
    by (cases x; cases y; cases z) (simp_all add: less_eq_score_def)
  show "x \<le> y \<Longrightarrow> y \<le> x \<Longrightarrow> x = y"
    by (cases x; cases y) (simp_all add: less_eq_score_def)
  show "x \<le> y \<or> y \<le> x"
    by (cases x; cases y) (auto simp add: less_eq_score_def)
qed

end

section \<open>Rules engine: \<open>WINNING_LINES\<close>, \<open>checkWin\<close>, \<open>isDraw\<close>\<close>

definition WINNING_LINES :: "line list" where
  "WINNING_LINES =
     [(0,1,2),(3,4,5),(6,7,8),
      (0,3,6),(1,4,7),(2,5,8),
      (0,4,8),(2,4,6)]"

record win =
  winner :: mark
  line :: line

text \<open>
  The test \<open>board[a] && board[a] === board[b] && board[a] === board[c]\<close>: the first
  cell is truthy (a mark) and the other two are the same mark.
\<close>

definition lineComplete :: "board \<Rightarrow> line \<Rightarrow> mark option" where
  "lineComplete b l =
     (case l of (x, y, z) \<Rightarrow>
        (case boardGet b x of
           Some (Some m) \<Rightarrow>
             if boardGet b y = Some (Some m) \<and> boardGet b z = Some (Some m)
             then Some m else None
         | _ \<Rightarrow> None))"

fun scanLines :: "board \<Rightarrow> line list \<Rightarrow> win option" where
  "scanLines b [] = None"
| "scanLines b (l # ls) =
     (case lineComplete b l of
        Some m \<Rightarrow> Some \<lparr>winner = m, line = l\<rparr>
      | None \<Rightarrow> scanLines b ls)"

definition checkWin :: "board \<Rightarrow> win option" where
  "checkWin b = scanLines b WINNING_LINES"

definition isDraw :: "board \<Rightarrow> bool" where
  "isDraw b = (list_all (\<lambda>c. c \<noteq> None) b \<and> checkWin b = None)"

text \<open>
  The outcome of a board as \<open>makeMove\<close> decides it: \<open>checkWin\<close> first, then
  \<open>isDraw\<close>, otherwise the game goes on.
\<close>

datatype outcome = InProgress | Win mark line | Draw

definition evaluate :: "board \<Rightarrow> outcome" where
  "evaluate b =
     (case checkWin b of
        Some w \<Rightarrow> Win (winner w) (line w)
      | None \<Rightarrow> if isDraw b then Draw else InProgress)"

section \<open>Game session: the \<open>GAME\<close> object\<close>

text \<open>
  The fields of \<open>GAME\<close>, the text of the status element, and the number of
  \<open>aiMakeMove\<close> callbacks that \<open>setTimeout\<close> has scheduled and that have not run yet.
  History entries carry a clock time in the source; the model keeps what happened.
\<close>

record scoreBoard =
  scoreX :: int
  scoreO :: int
  scoreDraw :: int

datatype histEntry = Won mark | Drawn

datatype statusMsg =
    Ready | Started mark | Turn mark | Wins mark | DrawMsg
  | NotRunning | Occupied | NotYourTurn string

record game =
  board :: board
  currentPlayer :: mark
  running :: bool
  mode :: string
  aiLevel :: string
  playerSymbol :: string
  scores :: scoreBoard
  history :: "histEntry list"
  winningLine :: "line option"
  lastMoveIndex :: "int option"
  status :: statusMsg
  pending :: nat

text \<open>The values of the three select elements that \<open>startGame\<close> reads.\<close>

record config =
  modeSelect :: string
  aiLevelSelect :: string
  playerSymbolSelect :: string

definition addHistory :: "histEntry \<Rightarrow> game \<Rightarrow> game" where
  "addHistory e g = g\<lparr>history := take 12 (e # history g)\<rparr>"

definition bumpScore :: "mark \<Rightarrow> scoreBoard \<Rightarrow> scoreBoard" where
  "bumpScore m sc =
     (case m of MarkX \<Rightarrow> sc\<lparr>scoreX := scoreX sc + 1\<rparr>
      | MarkO \<Rightarrow> sc\<lparr>scoreO := scoreO sc + 1\<rparr>)"

definition startGame :: "game \<Rightarrow> config \<Rightarrow> game" where
  "startGame g cfg =
     (let g1 = g\<lparr>board := replicate 9 None,
                  running := True,
                  winningLine := None,
                  lastMoveIndex := None,
                  mode := modeSelect cfg,
                  aiLevel := aiLevelSelect cfg,
                  playerSymbol := playerSymbolSelect cfg,
                  currentPlayer := MarkX,
                  status := Started MarkX\<rparr>
      in if mode g1 = ''pvc'' \<and> playerSymbol g1 \<noteq> ''X''
         then g1\<lparr>pending := pending g1 + 1\<rparr>
         else g1)"

text \<open>
  \<open>makeMove\<close> returns its boolean together with the new \<open>GAME\<close>. The only guard is
  \<open>GAME.board[idx] !== null\<close>.
\<close>

definition makeMove :: "game \<Rightarrow> int option \<Rightarrow> mark \<Rightarrow> bool \<times> game" where
  "makeMove g idx mk =
     (if \<not> idxIsNull (board g) idx then (False, g)
      else
        (let i = (case idx of Some n \<Rightarrow> nat n | None \<Rightarrow> 0);
             b = (board g)[i := Some mk];
             g1 = g\<lparr>board := b, lastMoveIndex := idx\<rparr>
         in case checkWin b of
              Some w \<Rightarrow>
                (True,
                 addHistory (Won (winner w))
                   (g1\<lparr>running := False,
                       winningLine := Some (line w),
                       status := Wins (winner w),
                       scores := bumpScore (winner w) (scores g1)\<rparr>))
            | None \<Rightarrow>
                if isDraw b then
                  (True,
                   addHistory Drawn
                     (g1\<lparr>running := False,
                         winningLine := None,
                         status := DrawMsg,
                         scores := (scores g1)\<lparr>scoreDraw := scoreDraw (scores g1) + 1\<rparr>\<rparr>))
                else
                  (let cp = (if mk = MarkX then MarkO else MarkX);
                       g2 = g1\<lparr>currentPlayer := cp, status := Turn cp\<rparr>
                   in (True,
                       if mode g2 = ''pvc'' \<and> markStr cp \<noteq> playerSymbol g2
                       then g2\<lparr>pending := pending g2 + 1\<rparr>
                       else g2))))"

definition humanMove :: "game \<Rightarrow> int \<Rightarrow> game" where
  "humanMove g idx =
     (if \<not> running g then g\<lparr>status := NotRunning\<rparr>
      else if \<not> idxIsNull (board g) (Some idx) then g\<lparr>status := Occupied\<rparr>
      else if mode g = ''pvc'' then
        (let human = playerSymbol g; toPlay = currentPlayer g
         in if markStr toPlay \<noteq> human then g\<lparr>status := NotYourTurn human\<rparr>
            else snd (makeMove g (Some idx) toPlay))
      else snd (makeMove g (Some idx) (currentPlayer g)))"

section \<open>AI strategies\<close>

text \<open>
  \<open>Math.random()\<close> is a parameter \<open>u\<close>; \<open>xs[Math.floor(u * xs.length)]\<close> is
  \<open>undefined\<close> (\<open>None\<close>) when the computed position lies outside the array.
\<close>

definition randomPick :: "nat list \<Rightarrow> real \<Rightarrow> int option" where
  "randomPick xs u =
     (let k = \<lfloor>u * real (length xs)\<rfloor>
      in if 0 \<le> k \<and> k < int (length xs) then Some (int (xs ! nat k)) else None)"

definition emptyCells :: "board \<Rightarrow> nat list" where
  "emptyCells b = filter (\<lambda>i. b ! i = None) [0 ..< length b]"

definition aiRandomMove :: "board \<Rightarrow> real \<Rightarrow> int option" where
  "aiRandomMove b u =
     (let empties = emptyCells b
      in if length empties = 0 then None else randomPick empties u)"

text \<open>
  The two scanning loops of \<open>aiDifficultMove\<close> (steps 1 and 2) differ only in the
  mark they try. Each writes the mark, calls \<open>checkWin\<close> and writes \<open>null\<close> back.
\<close>

function tryCells :: "nat \<Rightarrow> board \<Rightarrow> mark \<Rightarrow> nat option \<times> board" where
  "tryCells i b m =
     (if \<not> i < 9 then (None, b)
      else if isNull b i then
        (let b1 = b[i := Some m]
         in if checkWin b1 \<noteq> None then (Some i, b1[i := None])
            else tryCells (i + 1) (b1[i := None]) m)
      else tryCells (i + 1) b m)"
  by pat_completeness auto
termination
  by (relation "measure (\<lambda>(i, b, m). 9 - i)") auto

definition limitedTerminal :: "board \<Rightarrow> mark \<Rightarrow> mark \<Rightarrow> score option" where
  "limitedTerminal b ai hu =
     (case checkWin b of
        Some w \<Rightarrow>
          if winner w = ai then Some (Fin 100)
          else if winner w = hu then Some (Fin (- 100))
          else if isDraw b then Some (Fin 0) else None
      | None \<Rightarrow> if isDraw b then Some (Fin 0) else None)"

definition cellValue :: "board \<Rightarrow> nat \<Rightarrow> mark \<Rightarrow> mark \<Rightarrow> int \<Rightarrow> int" where
  "cellValue b i ai hu v =
     (if boardGet b i = Some (Some ai) then v
      else if boardGet b i = Some (Some hu) then - v else 0)"

definition staticScore :: "board \<Rightarrow> mark \<Rightarrow> mark \<Rightarrow> int" where
  "staticScore b ai hu =
     (let center = cellValue b 4 ai hu 6;
          corners = foldl (\<lambda>s i. s + cellValue b i ai hu 3) 0 [0, 2, 6, 8]
      in 0 + center + corners)"

text \<open>
  \<open>limitedMinimaxScore\<close> with its two loops. The board is threaded through every call
  and returned, as the source writes into the caller's array. \<open>depth\<close> is a natural
  number: the only call site passes 3 and the recursion subtracts 1 after the test
  \<open>depth === 0\<close>.
\<close>

function limitedMinimaxScore :: "board \<Rightarrow> mark \<Rightarrow> mark \<Rightarrow> nat \<Rightarrow> bool \<Rightarrow> score \<times> board"
  and limitedLoop :: "nat \<Rightarrow> board \<Rightarrow> mark \<Rightarrow> mark \<Rightarrow> nat \<Rightarrow> bool \<Rightarrow> score \<Rightarrow> score \<times> board"
where
  "limitedMinimaxScore b ai hu depth isAiTurn =
     (case limitedTerminal b ai hu of
        Some s \<Rightarrow> (s, b)
      | None \<Rightarrow>
          if depth = 0 then (Fin (staticScore b ai hu), b)
          else limitedLoop 0 b ai hu (depth - 1) isAiTurn
                 (if isAiTurn then NegInf else PosInf))"
| "limitedLoop i b ai hu nd isAiTurn best =
     (if \<not> i < 9 then (best, b)
      else if isNull b i then
        (let b1 = b[i := Some (if isAiTurn then ai else hu)];
             (val, b2) = limitedMinimaxScore b1 ai hu nd (\<not> isAiTurn);
             b3 = b2[i := None];
             best' = (if isAiTurn then max best val else min best val)
         in limitedLoop (i + 1) b3 ai hu nd isAiTurn best')
      else limitedLoop (i + 1) b ai hu nd isAiTurn best)"
  by pat_completeness auto
termination
  by (relation "measures
        [\<lambda>x. case x of Inl (b, ai, hu, d, t) \<Rightarrow> 2 * d + 1
                      | Inr (i, b, ai, hu, nd, t, best) \<Rightarrow> 2 * nd + 2,
         \<lambda>x. case x of Inl _ \<Rightarrow> 0
                      | Inr (i, b, ai, hu, nd, t, best) \<Rightarrow> 9 - i]") auto

text \<open>Step 4 of \<open>aiDifficultMove\<close>: the loop over the empty corners.\<close>

fun cornerLoop :: "nat list \<Rightarrow> board \<Rightarrow> mark \<Rightarrow> mark \<Rightarrow> nat \<Rightarrow> score \<Rightarrow> nat \<times> board" where
  "cornerLoop [] b ai hu best bestScore = (best, b)"
| "cornerLoop (c # cs) b ai hu best bestScore =
     (let b1 = b[c := Some ai];
          (sc, b2) = limitedMinimaxScore b1 ai hu 3 False;
          b3 = b2[c := None]
      in if sc > bestScore then cornerLoop cs b3 ai hu c sc
         else cornerLoop cs b3 ai hu best bestScore)"

definition aiDifficultMove :: "board \<Rightarrow> mark \<Rightarrow> real \<Rightarrow> int option \<times> board" where
  "aiDifficultMove b aiSymbol u =
     (let human = (if aiSymbol = MarkX then MarkO else MarkX);
          (w, b1) = tryCells 0 b aiSymbol
      in case w of
           Some i \<Rightarrow> (Some (int i), b1)
         | None \<Rightarrow>
            (let (bl, b2) = tryCells 0 b1 human
             in case bl of
                  Some i \<Rightarrow> (Some (int i), b2)
                | None \<Rightarrow>
                    if isNull b2 4 then (Some 4, b2)
                    else
                      (let corners = filter (isNull b2) [0, 2, 6, 8]
                       in if length corners > 0 then
                            (let (best, b3) = cornerLoop corners b2 aiSymbol human (corners ! 0) NegInf
                             in (Some (int best), b3))
                          else
                            (let sides = filter (isNull b2) [1, 3, 5, 7]
                             in if length sides > 0 then (randomPick sides u, b2)
                                else (aiRandomMove b2 u, b2)))))"

text \<open>
  \<open>minimax\<close> returns an object with a \<open>score\<close> and, once the caller has set it,
  an \<open>index\<close>; a terminal result has no \<open>index\<close> (\<open>None\<close>). The board is threaded
  through every call and returned, as the source writes into the array it is given.
  \<open>depth\<close> is an integer: \<open>aiMinimaxMove\<close> starts the search at depth 0 and each
  level adds 1, so the depths of a search lie in 0..9, where the numbers of the source
  are exact; the model says nothing of a call with a depth of magnitude \<open>2^53\<close> or
  more, where \<open>depth + 1\<close> and \<open>100 - depth\<close> round in the source.
\<close>

record mmres =
  index :: "int option"
  score :: score

definition terminalResult :: "board \<Rightarrow> mark \<Rightarrow> mark \<Rightarrow> int \<Rightarrow> mmres option" where
  "terminalResult b ai hu depth =
     (case checkWin b of
        Some w \<Rightarrow>
          if winner w = ai then Some \<lparr>index = None, score = Fin (100 - depth)\<rparr>
          else if winner w = hu then Some \<lparr>index = None, score = Fin (- 100 + depth)\<rparr>
          else if isDraw b then Some \<lparr>index = None, score = Fin 0\<rparr> else None
      | None \<Rightarrow>
          if isDraw b then Some \<lparr>index = None, score = Fin 0\<rparr> else None)"

function minimax ::
    "board \<Rightarrow> mark \<Rightarrow> mark \<Rightarrow> bool \<Rightarrow> score \<Rightarrow> score \<Rightarrow> int \<Rightarrow> mmres \<times> board"
  and minimaxLoop ::
    "nat \<Rightarrow> board \<Rightarrow> mark \<Rightarrow> mark \<Rightarrow> bool \<Rightarrow> score \<Rightarrow> score \<Rightarrow> int \<Rightarrow> mmres \<Rightarrow> mmres \<times> board"
where
  "minimax b ai hu isAiTurn alpha beta depth =
     (case terminalResult b ai hu depth of
        Some r \<Rightarrow> (r, b)
      | None \<Rightarrow>
          minimaxLoop 0 b ai hu isAiTurn alpha beta depth
            \<lparr>index = Some (- 1), score = (if isAiTurn then NegInf else PosInf)\<rparr>)"
| "minimaxLoop i b ai hu isAiTurn alpha beta depth best =
     (if \<not> i < 9 then (best, b)
      else if isNull b i then
        (let b1 = b[i := Some (if isAiTurn then ai else hu)];
             (r, b2) = minimax b1 ai hu (\<not> isAiTurn) alpha beta (depth + 1);
             b3 = b2[i := None];
             res = r\<lparr>index := Some (int i)\<rparr>
         in if isAiTurn then
              (let best' = (if score res > score best then res else best);
                   alpha' = max alpha (score res)
               in if beta \<le> alpha' then (best', b3)
                  else minimaxLoop (i + 1) b3 ai hu isAiTurn alpha' beta depth best')
            else
              (let best' = (if score res < score best then res else best);
                   beta' = min beta (score res)
               in if beta' \<le> alpha then (best', b3)
                  else minimaxLoop (i + 1) b3 ai hu isAiTurn alpha beta' depth best'))
      else minimaxLoop (i + 1) b ai hu isAiTurn alpha beta depth best)"
  by pat_completeness auto

text \<open>\<open>aiMinimaxMove\<close> searches on a copy (\<open>board.slice()\<close>), so it returns the index only.\<close>

definition aiMinimaxMove :: "board \<Rightarrow> mark \<Rightarrow> real \<Rightarrow> int option" where
  "aiMinimaxMove b aiSymbol u =
     (let human = (if aiSymbol = MarkX then MarkO else MarkX)
      in if list_all (\<lambda>c. c = None) b then randomPick [0, 2, 6, 8] u
         else index (fst (minimax b aiSymbol human True NegInf PosInf 0)))"

text \<open>
  Whether a strategy calls \<open>Math.random()\<close>: \<open>aiRandomMove\<close> does when some cell is
  empty, \<open>aiMinimaxMove\<close> when every cell is empty, \<open>aiDifficultMove\<close> when it reaches
  step 5 with an empty side, or step 6 with an empty cell.
\<close>

definition aiRandomDraws :: "board \<Rightarrow> bool" where
  "aiRandomDraws b = (length (emptyCells b) \<noteq> 0)"

definition aiMinimaxDraws :: "board \<Rightarrow> bool" where
  "aiMinimaxDraws b = list_all (\<lambda>c. c = None) b"

definition aiDifficultDraws :: "board \<Rightarrow> mark \<Rightarrow> bool" where
  "aiDifficultDraws b aiSymbol =
     (let human = (if aiSymbol = MarkX then MarkO else MarkX);
          (w, b1) = tryCells 0 b aiSymbol
      in case w of
           Some i \<Rightarrow> False
         | None \<Rightarrow>
            (let (bl, b2) = tryCells 0 b1 human
             in case bl of
                  Some i \<Rightarrow> False
                | None \<Rightarrow>
                    if isNull b2 4 then False
                    else
                      (let corners = filter (isNull b2) [0, 2, 6, 8]
                       in if length corners > 0 then False
                          else
                            (let sides = filter (isNull b2) [1, 3, 5, 7]
                             in if length sides > 0 then True
                                else aiRandomDraws b2))))"

text \<open>
  \<open>aiMakeMove\<close>: \<open>sel\<close> is the current value of the level select element, \<open>u1\<close> and
  \<open>u2\<close> are the results of the first and second call of \<open>Math.random()\<close> made while
  \<open>aiMakeMove\<close> runs. The fallback call of \<open>aiRandomMove\<close> gets the second result
  when the chosen strategy has drawn the first, and the first result otherwise.
\<close>

definition chosenLevel :: "game \<Rightarrow> string \<Rightarrow> string" where
  "chosenLevel g sel =
     (if aiLevel g \<noteq> [] then aiLevel g else if sel \<noteq> [] then sel else ''easy'')"

definition badIndex :: "board \<Rightarrow> int option \<Rightarrow> bool" where
  "badIndex b idx =
     (case idx of None \<Rightarrow> True
      | Some i \<Rightarrow> i < 0 \<or> i > 8 \<or> \<not> idxIsNull b idx)"

definition aiMakeMove :: "game \<Rightarrow> string \<Rightarrow> real \<Rightarrow> real \<Rightarrow> game" where
  "aiMakeMove g sel u1 u2 =
     (if \<not> running g then g
      else
        (let aiSymbol = (if playerSymbol g = ''X'' then MarkO else MarkX);
             level = chosenLevel g sel;
             (idx, b') =
               (if level = ''easy'' then (aiRandomMove (board g) u1, board g)
                else if level = ''difficult'' then aiDifficultMove (board g) aiSymbol u1
                else (aiMinimaxMove (board g) aiSymbol u1, board g));
             drew =
               (if level = ''easy'' then aiRandomDraws (board g)
                else if level = ''difficult'' then aiDifficultDraws (board g) aiSymbol
                else aiMinimaxDraws (board g));
             g1 = g\<lparr>board := b'\<rparr>;
             idx' = (if badIndex (board g1) idx
                     then aiRandomMove (board g1) (if drew then u2 else u1)
                     else idx)
         in snd (makeMove g1 idx' aiSymbol)))"

text \<open>A scheduled \<open>aiMakeMove\<close> callback runs: one fewer is pending.\<close>

definition fireTimer :: "game \<Rightarrow> string \<Rightarrow> real \<Rightarrow> real \<Rightarrow> game" where
  "fireTimer g sel u1 u2 =
     (if pending g = 0 then g
      else aiMakeMove (g\<lparr>pending := pending g - 1\<rparr>) sel u1 u2)"

text \<open>
  Self-play of the Optimal Strategy: the mark to move asks \<open>aiMinimaxMove\<close> for an index
  and writes its mark there, until \<open>evaluate\<close> reports a win or a draw. At most \<open>n\<close>
  moves are played; nine fill the board.
\<close>

fun selfPlay :: "nat \<Rightarrow> board \<Rightarrow> mark \<Rightarrow> real \<Rightarrow> board" where
  "selfPlay 0 b m u = b"
| "selfPlay (Suc n) b m u =
     (if evaluate b \<noteq> InProgress then b
      else
        (let idx = aiMinimaxMove b m u
         in if idxIsNull b idx
            then selfPlay n (b[(case idx of Some i \<Rightarrow> nat i | None \<Rightarrow> 0) := Some m]) (other m) u
            else b))"

definition emptyCount :: "board \<Rightarrow> nat" where
  "emptyCount b = length (filter (\<lambda>c. c = None) b)"

text \<open>The \<open>GAME\<close> object as the script creates it, after \<open>init\<close> has run.\<close>

definition initialGame :: game where
  "initialGame =
     \<lparr>board = replicate 9 None,
      currentPlayer = MarkX,
      running = False,
      mode = ''pvp'',
      aiLevel = ''easy'',
      playerSymbol = ''X'',
      scores = \<lparr>scoreX = 0, scoreO = 0, scoreDraw = 0\<rparr>,
      history = [],
      winningLine = None,
      lastMoveIndex = None,
      status = Ready,
      pending = 0\<rparr>"

text \<open>
  The three cells of a line all hold the mark \<open>m\<close>: what the specification calls a
  complete line.
\<close>

definition allMark :: "board \<Rightarrow> line \<Rightarrow> mark \<Rightarrow> bool" where
  "allMark b l m =
     (case l of (x, y, z) \<Rightarrow>
        boardGet b x = Some (Some m) \<and> boardGet b y = Some (Some m) \<and>
        boardGet b z = Some (Some m))"


text \<open>
  A result of \<open>minimax\<close> that names a move: its index is that of an empty cell among
  the nine, and its score is finite.
\<close>

definition validResult :: "board \<Rightarrow> mmres \<Rightarrow> bool" where
  "validResult b r =
     (\<exists>k f. k < 9 \<and> isNull b k \<and> index r = Some (int k) \<and> score r = Fin f)"

section \<open>Termination of \<open>minimax\<close>\<close>

lemma isNull_restore: "isNull b i \<Longrightarrow> b[i := Some m, i := None] = b"
  by (auto simp: isNull_def boardGet_def list_update_same_conv split: if_splits)

lemma isNull_update_None: "isNull b i \<Longrightarrow> b[i := None] = b"
  by (auto simp: isNull_def boardGet_def list_update_same_conv split: if_splits)

lemma isNull_write_count: "isNull b i \<Longrightarrow> emptyCount (b[i := Some m]) < emptyCount b"
proof (induction b arbitrary: i)
  case Nil
  then show ?case by (simp add: isNull_def boardGet_def)
next
  case (Cons c cs)
  show ?case
  proof (cases i)
    case 0
    with Cons.prems show ?thesis by (simp add: isNull_def boardGet_def emptyCount_def)
  next
    case (Suc j)
    with Cons.prems have "isNull cs j"
      by (simp add: isNull_def boardGet_def split: if_splits)
    from Cons.IH[OF this] Suc show ?thesis by (simp add: emptyCount_def)
  qed
qed

text \<open>
  The call after a recursive call runs on the board that call returned, so termination
  needs the frame property on the domain of the function first.
\<close>

lemma minimax_frame_partial:
  "minimax_minimaxLoop_dom (Inl (b, ai, hu, t, al, be, d)) \<Longrightarrow>
     snd (minimax b ai hu t al be d) = b"
  "minimax_minimaxLoop_dom (Inr (i, b, ai, hu, t, al, be, d, best)) \<Longrightarrow>
     snd (minimaxLoop i b ai hu t al be d best) = b"
proof (induct rule: minimax_minimaxLoop.pinduct)
  case (1 b ai hu isAiTurn alpha beta depth)
  then show ?case
    by (auto simp add: minimax.psimps split: option.splits)
next
  case (2 i b ai hu isAiTurn alpha beta depth best)
  show ?case
  proof (cases "i < 9 \<and> isNull b i")
    case False
    with 2 show ?thesis by (auto simp: minimaxLoop.psimps)
  next
    case True
    then have lt: "i < 9" and nl: "isNull b i" by simp_all
    define b1 where "b1 = b[i := Some (if isAiTurn then ai else hu)]"
    obtain r b2 where m: "minimax b1 ai hu (\<not> isAiTurn) alpha beta (depth + 1) = (r, b2)"
      by (cases "minimax b1 ai hu (\<not> isAiTurn) alpha beta (depth + 1)")
    have "snd (minimax b1 ai hu (\<not> isAiTurn) alpha beta (depth + 1)) = b1"
      using 2(2)[OF _ nl b1_def] lt by simp
    with m have b2: "b2 = b1" by simp
    have b3: "b2[i := None] = b" unfolding b2 b1_def using nl by (rule isNull_restore)
    show ?thesis
      using 2(1) 2(3)[OF _ nl b1_def m[symmetric] refl refl refl _ refl refl]
            2(4)[OF _ nl b1_def m[symmetric] refl refl refl _ refl refl] lt nl m b3
      by (simp add: minimaxLoop.psimps[OF 2(1)] b1_def[symmetric] Let_def)
  qed
qed

termination minimax
proof (relation "inv_image (measure id <*lex*> measure id)
         (\<lambda>x. case x of Inl (b, _) \<Rightarrow> (emptyCount b, 10)
              | Inr (i, b, _) \<Rightarrow> (emptyCount b, 9 - i))", goal_cases)
  case 1
  show ?case by (intro wf_inv_image wf_lex_prod wf_measure)
next
  case (2 b ai hu isAiTurn alpha beta depth)
  show ?case by simp
next
  case (3 i b ai hu isAiTurn alpha beta depth best x)
  then show ?case by (simp add: isNull_write_count)
next
  case (4 i b ai hu isAiTurn alpha beta depth best x xa xb y xc xd xe xf)
  from 4 minimax_frame_partial(1)[of x ai hu "\<not> isAiTurn" alpha beta "depth + 1"]
  have "y = x" by (metis snd_conv)
  with 4 have "xc = b" by (simp add: isNull_update_None)
  with 4 show ?case by simp
next
  case (5 i b ai hu isAiTurn alpha beta depth best x xa xb y xc xd xe xf)
  from 5 minimax_frame_partial(1)[of x ai hu "\<not> isAiTurn" alpha beta "depth + 1"]
  have "y = x" by (metis snd_conv)
  with 5 have "xc = b" by (simp add: isNull_update_None)
  with 5 show ?case by simp
next
  case (6 i b ai hu isAiTurn alpha beta depth best)
  then show ?case by simp
qed

section \<open>The unpruned search\<close>

text \<open>
  Full-depth minimax without pruning, as the specification describes the Optimal
  Strategy: a win of the AI's mark scores \<open>100 - depth\<close>, a win of the opponent
  \<open>-100 + depth\<close>, a draw 0; otherwise the side to move takes the maximum (AI) or the
  minimum (opponent) of the values of all moves into an empty cell among the nine.
\<close>

function fullMinimax :: "board \<Rightarrow> mark \<Rightarrow> bool \<Rightarrow> int \<Rightarrow> score" where
  "fullMinimax b aiMark isAiTurn depth =
     (case evaluate b of
        Win m l \<Rightarrow> if m = aiMark then Fin (100 - depth) else Fin (- 100 + depth)
      | Draw \<Rightarrow> Fin 0
      | InProgress \<Rightarrow>
          (let vals = map (\<lambda>i. fullMinimax (b[i := Some (if isAiTurn then aiMark else other aiMark)])
                                aiMark (\<not> isAiTurn) (depth + 1))
                          (filter (isNull b) [0 ..< 9])
           in if isAiTurn then foldr max vals NegInf else foldr min vals PosInf))"
  by pat_completeness auto
termination
  by (relation "measure (\<lambda>(b, aiMark, isAiTurn, depth). emptyCount b)")
     (auto simp: isNull_write_count)

definition childValues :: "nat \<Rightarrow> board \<Rightarrow> mark \<Rightarrow> bool \<Rightarrow> int \<Rightarrow> score list" where
  "childValues i b aiMark isAiTurn depth =
     map (\<lambda>j. fullMinimax (b[j := Some (if isAiTurn then aiMark else other aiMark)])
                 aiMark (\<not> isAiTurn) (depth + 1))
         (filter (isNull b) [i ..< 9])"

text \<open>
  The relation between the value \<open>v\<close> of a position and the result \<open>r\<close> of a search
  with the window \<open>(al, be)\<close>: at or below \<open>al\<close> the result is an upper bound, at or
  above \<open>be\<close> a lower bound, strictly inside the window it is exact.
\<close>

definition failSoft :: "'a::linorder \<Rightarrow> 'a \<Rightarrow> 'a \<Rightarrow> 'a \<Rightarrow> bool" where
  "failSoft al be v r = ((r \<le> al \<longrightarrow> v \<le> r) \<and> (be \<le> r \<longrightarrow> r \<le> v) \<and> (al < r \<and> r < be \<longrightarrow> r = v))"

declare minimax.simps [simp del] minimaxLoop.simps [simp del]
declare fullMinimax.simps [simp del]
declare tryCells.simps [simp del]
declare limitedMinimaxScore.simps [simp del] limitedLoop.simps [simp del]

section \<open>The rules engine\<close>

lemma lineComplete_Some_iff: "lineComplete b l = Some m \<longleftrightarrow> allMark b l m"
  by (cases l) (auto simp: lineComplete_def allMark_def split: option.splits)

lemma lineComplete_None_iff: "lineComplete b l = None \<longleftrightarrow> (\<forall>m. \<not> allMark b l m)"
proof (cases "lineComplete b l")
  case None
  then show ?thesis using lineComplete_Some_iff[of b l] by simp
next
  case (Some m)
  then show ?thesis using lineComplete_Some_iff[of b l m] by auto
qed

lemma scanLines_Some:
  "scanLines b ls = Some w \<Longrightarrow>
     \<exists>k < length ls. ls ! k = line w \<and> lineComplete b (ls ! k) = Some (winner w) \<and>
        (\<forall>j < k. lineComplete b (ls ! j) = None)"
proof (induction ls)
  case Nil
  then show ?case by simp
next
  case (Cons l ls)
  show ?case
  proof (cases "lineComplete b l")
    case (Some m)
    with Cons.prems have "w = \<lparr>winner = m, line = l\<rparr>" by simp
    with Some have "(l # ls) ! 0 = line w \<and> lineComplete b ((l # ls) ! 0) = Some (winner w)"
      by simp
    then show ?thesis by (intro exI[of _ 0]) auto
  next
    case None
    with Cons.prems have "scanLines b ls = Some w" by simp
    from Cons.IH[OF this] obtain k where k: "k < length ls" "ls ! k = line w"
      "lineComplete b (ls ! k) = Some (winner w)" "\<forall>j < k. lineComplete b (ls ! j) = None"
      by blast
    have "\<forall>j < Suc k. lineComplete b ((l # ls) ! j) = None"
    proof (intro allI impI)
      fix j assume "j < Suc k"
      then show "lineComplete b ((l # ls) ! j) = None"
        using None k(4) by (cases j) simp_all
    qed
    with k show ?thesis by (intro exI[of _ "Suc k"]) simp
  qed
qed

lemma scanLines_None:
  "scanLines b ls = None \<longleftrightarrow> (\<forall>l \<in> set ls. lineComplete b l = None)"
  by (induction ls) (auto split: option.splits)

lemma checkWin_None_iff:
  "checkWin b = None \<longleftrightarrow> (\<forall>l \<in> set WINNING_LINES. \<forall>m. \<not> allMark b l m)"
  by (simp add: checkWin_def scanLines_None lineComplete_None_iff)

lemma evaluate_Win_iff:
  "evaluate b = Win m l \<longleftrightarrow> checkWin b = Some \<lparr>winner = m, line = l\<rparr>"
  by (auto simp: evaluate_def split: option.splits)

lemma evaluate_Draw_iff: "evaluate b = Draw \<longleftrightarrow> isDraw b"
  by (auto simp: evaluate_def isDraw_def split: option.splits)

lemma evaluate_InProgress_iff:
  "evaluate b = InProgress \<longleftrightarrow> checkWin b = None \<and> \<not> isDraw b"
  by (auto simp: evaluate_def split: option.splits)

lemma scanLines_first:
  "k < length ls \<Longrightarrow> lineComplete b (ls ! k) = Some m \<Longrightarrow>
     \<forall>j < k. lineComplete b (ls ! j) = None \<Longrightarrow>
     scanLines b ls = Some \<lparr>winner = m, line = ls ! k\<rparr>"
proof (induction ls arbitrary: k)
  case Nil
  then show ?case by simp
next
  case (Cons l ls)
  show ?case
  proof (cases k)
    case 0
    with Cons.prems show ?thesis by simp
  next
    case (Suc n)
    with Cons.prems have l: "lineComplete b l = None" by auto
    from Suc Cons.prems have "n < length ls" "lineComplete b (ls ! n) = Some m" by simp_all
    moreover have "\<forall>j < n. lineComplete b (ls ! j) = None"
    proof (intro allI impI)
      fix j assume "j < n"
      then have "Suc j < k" using Suc by simp
      with Cons.prems(3) have "lineComplete b ((l # ls) ! Suc j) = None" by blast
      then show "lineComplete b (ls ! j) = None" by simp
    qed
    ultimately have "scanLines b ls = Some \<lparr>winner = m, line = ls ! n\<rparr>"
      by (rule Cons.IH)
    with l Suc show ?thesis by simp
  qed
qed

lemma evaluate_Win_first_iff:
  "evaluate b = Win m l \<longleftrightarrow>
     (\<exists>k < 8. WINNING_LINES ! k = l \<and> allMark b l m \<and>
        (\<forall>j < k. \<forall>m'. \<not> allMark b (WINNING_LINES ! j) m'))"
proof
  assume "evaluate b = Win m l"
  then have "scanLines b WINNING_LINES = Some \<lparr>winner = m, line = l\<rparr>"
    by (simp add: evaluate_Win_iff checkWin_def)
  from scanLines_Some[OF this] obtain k where k: "k < length WINNING_LINES"
    "WINNING_LINES ! k = l" "lineComplete b (WINNING_LINES ! k) = Some m"
    "\<forall>j < k. lineComplete b (WINNING_LINES ! j) = None"
    by auto
  have len: "length WINNING_LINES = 8" by (simp add: WINNING_LINES_def)
  from k(2,3) have "allMark b l m" by (simp add: lineComplete_Some_iff)
  moreover from k(4) have "\<forall>j < k. \<forall>m'. \<not> allMark b (WINNING_LINES ! j) m'"
    by (simp add: lineComplete_None_iff)
  ultimately show "\<exists>k < 8. WINNING_LINES ! k = l \<and> allMark b l m \<and>
            (\<forall>j < k. \<forall>m'. \<not> allMark b (WINNING_LINES ! j) m')"
    using k(1,2) len by auto
next
  assume "\<exists>k < 8. WINNING_LINES ! k = l \<and> allMark b l m \<and>
            (\<forall>j < k. \<forall>m'. \<not> allMark b (WINNING_LINES ! j) m')"
  then obtain k where k: "k < 8" "WINNING_LINES ! k = l" "allMark b l m"
    "\<forall>j < k. \<forall>m'. \<not> allMark b (WINNING_LINES ! j) m'" by blast
  have len: "length WINNING_LINES = 8" by (simp add: WINNING_LINES_def)
  from k(2,3) have c: "lineComplete b (WINNING_LINES ! k) = Some m"
    by (simp add: lineComplete_Some_iff)
  from k(4) have n: "\<forall>j < k. lineComplete b (WINNING_LINES ! j) = None"
    by (simp add: lineComplete_None_iff)
  from k(1) len have "k < length WINNING_LINES" by simp
  from scanLines_first[OF this c n] k(2) show "evaluate b = Win m l"
    by (simp add: evaluate_Win_iff checkWin_def)
qed

lemma complete_line_gives_Win:
  assumes "l \<in> set WINNING_LINES" "allMark b l m"
  shows "\<exists>m' l'. evaluate b = Win m' l'"
proof -
  from assms have "checkWin b \<noteq> None" using checkWin_None_iff[of b] by blast
  then obtain w where "checkWin b = Some w" by blast
  then have "evaluate b = Win (winner w) (line w)" by (simp add: evaluate_def)
  then show ?thesis by blast
qed

text \<open>
  Claim C2. \<open>evaluate\<close> (\<open>checkWin\<close> followed by \<open>isDraw\<close>) is a total function with
  exactly the three outcomes \<open>InProgress\<close>, \<open>Win\<close> and \<open>Draw\<close>. The scan list is the
  three rows, then the three columns, then the two diagonals. The outcome is \<open>Win m l\<close>
  exactly when \<open>l\<close> is the first complete line of that list and its three cells all hold
  the mark \<open>m\<close>: \<open>l\<close> stands at some position \<open>k\<close>, its cells hold \<open>m\<close>, and no line at
  an earlier position is complete. So every board with a complete line yields \<open>Win\<close>.
  The outcome is \<open>Draw\<close> exactly when no cell is \<open>null\<close> and no line of the list is
  complete, and \<open>InProgress\<close> exactly when some cell is \<open>null\<close> and no line is complete.
\<close>

theorem C2_evaluate_outcome:
  "WINNING_LINES = [(0,1,2),(3,4,5),(6,7,8), (0,3,6),(1,4,7),(2,5,8), (0,4,8),(2,4,6)]
   \<and> (evaluate b = InProgress \<or> (\<exists>m l. evaluate b = Win m l) \<or> evaluate b = Draw)
   \<and> (\<forall>m l. evaluate b = Win m l \<longleftrightarrow>
         (\<exists>k < 8. WINNING_LINES ! k = l \<and> allMark b l m \<and>
            (\<forall>j < k. \<forall>m'. \<not> allMark b (WINNING_LINES ! j) m')))
   \<and> ((\<exists>l \<in> set WINNING_LINES. \<exists>m. allMark b l m) \<longrightarrow> (\<exists>m l. evaluate b = Win m l))
   \<and> (evaluate b = Draw \<longleftrightarrow>
         (\<forall>c \<in> set b. c \<noteq> None) \<and> (\<forall>l \<in> set WINNING_LINES. \<forall>m. \<not> allMark b l m))
   \<and> (evaluate b = InProgress \<longleftrightarrow>
         (\<exists>c \<in> set b. c = None) \<and> (\<forall>l \<in> set WINNING_LINES. \<forall>m. \<not> allMark b l m))"
proof (intro conjI allI)
  show "WINNING_LINES = [(0,1,2),(3,4,5),(6,7,8), (0,3,6),(1,4,7),(2,5,8), (0,4,8),(2,4,6)]"
    by (simp add: WINNING_LINES_def)
  show "evaluate b = InProgress \<or> (\<exists>m l. evaluate b = Win m l) \<or> evaluate b = Draw"
    by (cases "evaluate b") auto
  show "evaluate b = Draw \<longleftrightarrow>
         (\<forall>c \<in> set b. c \<noteq> None) \<and> (\<forall>l \<in> set WINNING_LINES. \<forall>m. \<not> allMark b l m)"
    by (simp add: evaluate_Draw_iff isDraw_def checkWin_None_iff list_all_iff)
  show "evaluate b = InProgress \<longleftrightarrow>
         (\<exists>c \<in> set b. c = None) \<and> (\<forall>l \<in> set WINNING_LINES. \<forall>m. \<not> allMark b l m)"
    by (auto simp: evaluate_InProgress_iff isDraw_def checkWin_None_iff list_all_iff)
  show "(\<exists>l \<in> set WINNING_LINES. \<exists>m. allMark b l m) \<longrightarrow> (\<exists>m l. evaluate b = Win m l)"
    using complete_line_gives_Win by blast
next
  fix m l
  show "evaluate b = Win m l \<longleftrightarrow>
         (\<exists>k < 8. WINNING_LINES ! k = l \<and> allMark b l m \<and>
            (\<forall>j < k. \<forall>m'. \<not> allMark b (WINNING_LINES ! j) m'))"
    by (rule evaluate_Win_first_iff)
qed

text \<open>
  On a board where the first column and the diagonal from cell 2 to cell 6 are both
  complete for X and no row is, the column is reported: it stands at position 3 of the
  scan list, before the diagonal at position 7.
\<close>

theorem C2_evaluate_outcome_witness:
  "allMark [Some MarkX, Some MarkO, Some MarkX,
            Some MarkX, Some MarkX, Some MarkO,
            Some MarkX, Some MarkO, Some MarkO] (0,3,6) MarkX
   \<and> allMark [Some MarkX, Some MarkO, Some MarkX,
            Some MarkX, Some MarkX, Some MarkO,
            Some MarkX, Some MarkO, Some MarkO] (2,4,6) MarkX
   \<and> evaluate [Some MarkX, Some MarkO, Some MarkX,
             Some MarkX, Some MarkX, Some MarkO,
             Some MarkX, Some MarkO, Some MarkO] = Win MarkX (0,3,6)"
proof -
  let ?b = "[Some MarkX, Some MarkO, Some MarkX,
             Some MarkX, Some MarkX, Some MarkO,
             Some MarkX, Some MarkO, Some MarkO]"
  have c: "allMark ?b (0,3,6) MarkX" and d: "allMark ?b (2,4,6) MarkX"
    by (simp_all add: allMark_def boardGet_def)
  have k: "WINNING_LINES ! 3 = (0,3,6)" by (simp add: WINNING_LINES_def)
  have "\<forall>j < 3. \<forall>m'. \<not> allMark ?b (WINNING_LINES ! j) m'"
  proof (intro allI impI)
    fix j :: nat and m' assume "j < 3"
    then have "j = 0 \<or> j = 1 \<or> j = 2" by auto
    then show "\<not> allMark ?b (WINNING_LINES ! j) m'"
      by (cases m') (auto simp: WINNING_LINES_def allMark_def boardGet_def)
  qed
  with c k have "\<exists>k < 8. WINNING_LINES ! k = (0,3,6) \<and> allMark ?b (0,3,6) MarkX \<and>
      (\<forall>j < k. \<forall>m'. \<not> allMark ?b (WINNING_LINES ! j) m')"
    by (intro exI[of _ 3]) simp
  with C2_evaluate_outcome[of ?b, THEN conjunct2, THEN conjunct2, THEN conjunct1,
      rule_format, of MarkX "(0,3,6)"]
  have "evaluate ?b = Win MarkX (0,3,6)" by (rule iffD2)
  with c d show ?thesis by simp
qed

section \<open>The game session\<close>

lemma idxIsNull_range:
  "length b = 9 \<Longrightarrow> idxIsNull b (Some i) \<longleftrightarrow> 0 \<le> i \<and> i \<le> 8 \<and> b ! nat i = None"
  by (auto simp: idxIsNull_def isNull_def boardGet_def)

text \<open>
  Claim C4, as stated: \<open>humanMove\<close> and \<open>makeMove\<close> reject a move in four cases, among
  them when the game is not running and when, in mode \<open>pvc\<close>, the mark to act is not
  the mark whose turn it is. The only guard of \<open>makeMove\<close> is
  \<open>GAME.board[idx] !== null\<close>. On the initial \<open>GAME\<close>, whose running flag is false,
  \<open>makeMove\<close> accepts X at the free cell 5 and writes it. In a game of mode \<open>pvc\<close>
  with X to move, \<open>makeMove\<close> accepts O at the free cell 0 and writes it.
\<close>

theorem C4_makeMove_counterexample:
  "\<not> running initialGame
   \<and> fst (makeMove initialGame (Some 5) MarkX)
   \<and> board (snd (makeMove initialGame (Some 5) MarkX))
       = [None, None, None, None, None, Some MarkX, None, None, None]
   \<and> mode (startGame initialGame
        \<lparr>modeSelect = ''pvc'', aiLevelSelect = ''easy'', playerSymbolSelect = ''X''\<rparr>) = ''pvc''
   \<and> currentPlayer (startGame initialGame
        \<lparr>modeSelect = ''pvc'', aiLevelSelect = ''easy'', playerSymbolSelect = ''X''\<rparr>) = MarkX
   \<and> fst (makeMove (startGame initialGame
        \<lparr>modeSelect = ''pvc'', aiLevelSelect = ''easy'', playerSymbolSelect = ''X''\<rparr>)
        (Some 0) MarkO)
   \<and> board (snd (makeMove (startGame initialGame
        \<lparr>modeSelect = ''pvc'', aiLevelSelect = ''easy'', playerSymbolSelect = ''X''\<rparr>)
        (Some 0) MarkO))
       = [Some MarkO, None, None, None, None, None, None, None, None]"
  by code_simp

text \<open>
  Claim C4, amended. \<open>humanMove\<close> rejects the move when the game is not running, when
  the index lies outside 0..8, when the cell is occupied, and, in mode \<open>pvc\<close>, when the
  mark to move is not the human's mark. A rejected move changes nothing of \<open>GAME\<close>:
  board, current player, running flag, scores and every other field stay as they were;
  only the status text is set. \<open>makeMove\<close> itself returns \<open>false\<close> without writing
  when the index lies outside 0..8 or the cell is occupied; the tests of the running
  flag and of the turn are those of \<open>humanMove\<close>.
\<close>

theorem C4_rejected_move_changes_nothing:
  assumes "length (board g) = 9"
  shows "(\<not> running g \<or> idx < 0 \<or> 8 < idx \<or> board g ! nat idx \<noteq> None \<or>
          (mode g = ''pvc'' \<and> markStr (currentPlayer g) \<noteq> playerSymbol g)
          \<longrightarrow> humanMove g idx = g\<lparr>status := status (humanMove g idx)\<rparr>
            \<and> board (humanMove g idx) = board g
            \<and> currentPlayer (humanMove g idx) = currentPlayer g
            \<and> running (humanMove g idx) = running g
            \<and> scores (humanMove g idx) = scores g)
       \<and> (idx < 0 \<or> 8 < idx \<or> board g ! nat idx \<noteq> None
          \<longrightarrow> makeMove g (Some idx) mk = (False, g))"
proof (intro conjI impI)
  assume "idx < 0 \<or> 8 < idx \<or> board g ! nat idx \<noteq> None"
  then have "\<not> idxIsNull (board g) (Some idx)"
    using assms by (auto simp: idxIsNull_range)
  then show "makeMove g (Some idx) mk = (False, g)"
    by (simp add: makeMove_def)
next
  assume r: "\<not> running g \<or> idx < 0 \<or> 8 < idx \<or> board g ! nat idx \<noteq> None \<or>
          (mode g = ''pvc'' \<and> markStr (currentPlayer g) \<noteq> playerSymbol g)"
  have bad: "idx < 0 \<or> 8 < idx \<or> board g ! nat idx \<noteq> None
      \<Longrightarrow> \<not> idxIsNull (board g) (Some idx)"
    using assms by (auto simp: idxIsNull_range)
  from r bad have "humanMove g idx = g\<lparr>status := NotRunning\<rparr>
      \<or> humanMove g idx = g\<lparr>status := Occupied\<rparr>
      \<or> humanMove g idx = g\<lparr>status := NotYourTurn (playerSymbol g)\<rparr>"
    by (auto simp: humanMove_def Let_def)
  then show "humanMove g idx = g\<lparr>status := status (humanMove g idx)\<rparr>"
    and "board (humanMove g idx) = board g"
    and "currentPlayer (humanMove g idx) = currentPlayer g"
    and "running (humanMove g idx) = running g"
    and "scores (humanMove g idx) = scores g"
    by auto
qed

text \<open>
  A game in mode \<open>pvc\<close> with the human playing O: it is X's turn, so a click on the
  free cell 4 is rejected; and \<open>makeMove\<close> refuses index 9.
\<close>

theorem C4_rejected_move_changes_nothing_witness:
  "length (board (startGame initialGame
      \<lparr>modeSelect = ''pvc'', aiLevelSelect = ''easy'', playerSymbolSelect = ''O''\<rparr>)) = 9
   \<and> board (humanMove (startGame initialGame
      \<lparr>modeSelect = ''pvc'', aiLevelSelect = ''easy'', playerSymbolSelect = ''O''\<rparr>) 4)
     = replicate 9 None
   \<and> makeMove (startGame initialGame
      \<lparr>modeSelect = ''pvc'', aiLevelSelect = ''easy'', playerSymbolSelect = ''O''\<rparr>)
        (Some 9) MarkX
     = (False, startGame initialGame
      \<lparr>modeSelect = ''pvc'', aiLevelSelect = ''easy'', playerSymbolSelect = ''O''\<rparr>)"
proof -
  let ?g = "startGame initialGame
      \<lparr>modeSelect = ''pvc'', aiLevelSelect = ''easy'', playerSymbolSelect = ''O''\<rparr>"
  have len: "length (board ?g) = 9"
    by (simp add: startGame_def initialGame_def Let_def)
  have turn: "mode ?g = ''pvc'' \<and> markStr (currentPlayer ?g) \<noteq> playerSymbol ?g"
    by (simp add: startGame_def initialGame_def Let_def markStr_def)
  have b: "board ?g = replicate 9 None"
    by (simp add: startGame_def initialGame_def Let_def)
  from C4_rejected_move_changes_nothing[OF len, of 4 MarkX] turn
  have "board (humanMove ?g 4) = board ?g" by blast
  moreover from C4_rejected_move_changes_nothing[OF len, of 9 MarkX]
  have "makeMove ?g (Some 9) MarkX = (False, ?g)" by simp
  ultimately show ?thesis using len b by simp
qed

text \<open>
  Claim C9, as stated: \<open>startGame\<close> with an unrecognized mode or difficulty string
  fails and leaves board, running flag and current player as they were. The source has
  no such check. Started with the strings \<open>chess\<close> and \<open>impossible\<close> on the initial
  \<open>GAME\<close>, whose running flag is false, \<open>startGame\<close> sets the flag.
\<close>

theorem C9_unrecognized_config_counterexample:
  "\<not> running initialGame
   \<and> running (startGame initialGame
        \<lparr>modeSelect = ''chess'', aiLevelSelect = ''impossible'', playerSymbolSelect = ''X''\<rparr>)"
  by (simp add: startGame_def initialGame_def Let_def)

text \<open>
  Claim C9, amended. \<open>startGame\<close> does not validate its configuration and never fails:
  for every mode and difficulty string it resets the board to nine empty cells, sets
  the running flag, makes X the current player and stores the strings as given.
\<close>

theorem C9_startGame_accepts_every_config:
  "board (startGame g cfg) = replicate 9 None
   \<and> running (startGame g cfg)
   \<and> currentPlayer (startGame g cfg) = MarkX
   \<and> mode (startGame g cfg) = modeSelect cfg
   \<and> aiLevel (startGame g cfg) = aiLevelSelect cfg"
  by (simp add: startGame_def Let_def)

lemma emptyCells_start: "emptyCells (replicate 9 None) = [0,1,2,3,4,5,6,7,8]"
  by (simp add: emptyCells_def numeral_nat upt_rec)

lemma aiRandomMove_start: "aiRandomMove (replicate 9 None) 0 = Some 0"
  by (simp add: aiRandomMove_def emptyCells_start randomPick_def)

text \<open>
  Claim C8: a reset while an AI move is pending must discard that move, so that it is
  never applied to the board of the new game. The source does not keep to it:
  \<open>startGame\<close> cancels no timer, and \<open>aiMakeMove\<close> only tests the running flag, which
  \<open>startGame\<close> has just set. In mode \<open>pvc\<close> with the human playing X: the human plays
  cell 4, which schedules the AI move; the human restarts the game; the callback is
  still pending on the empty board; when it runs, O is written on the board of the new
  game, on X's turn.
\<close>

theorem C8_stale_move_applied_after_reset:
  "pending (startGame (humanMove (startGame initialGame
       \<lparr>modeSelect = ''pvc'', aiLevelSelect = ''easy'', playerSymbolSelect = ''X''\<rparr>) 4)
       \<lparr>modeSelect = ''pvc'', aiLevelSelect = ''easy'', playerSymbolSelect = ''X''\<rparr>) = 1
   \<and> board (startGame (humanMove (startGame initialGame
       \<lparr>modeSelect = ''pvc'', aiLevelSelect = ''easy'', playerSymbolSelect = ''X''\<rparr>) 4)
       \<lparr>modeSelect = ''pvc'', aiLevelSelect = ''easy'', playerSymbolSelect = ''X''\<rparr>)
       = replicate 9 None
   \<and> currentPlayer (startGame (humanMove (startGame initialGame
       \<lparr>modeSelect = ''pvc'', aiLevelSelect = ''easy'', playerSymbolSelect = ''X''\<rparr>) 4)
       \<lparr>modeSelect = ''pvc'', aiLevelSelect = ''easy'', playerSymbolSelect = ''X''\<rparr>)
       = MarkX
   \<and> board (fireTimer (startGame (humanMove (startGame initialGame
       \<lparr>modeSelect = ''pvc'', aiLevelSelect = ''easy'', playerSymbolSelect = ''X''\<rparr>) 4)
       \<lparr>modeSelect = ''pvc'', aiLevelSelect = ''easy'', playerSymbolSelect = ''X''\<rparr>)
       ''easy'' 0 0)
       = [Some MarkO, None, None, None, None, None, None, None, None]"
proof -
  let ?cfg = "\<lparr>modeSelect = ''pvc'', aiLevelSelect = ''easy'', playerSymbolSelect = ''X''\<rparr>"
  let ?g2 = "startGame (humanMove (startGame initialGame ?cfg) 4) ?cfg"
  let ?e = "[None, None, None, None, None, None, None, None, None] :: board"
  define G where "G = \<lparr>board = ?e, currentPlayer = MarkX, running = True, mode = ''pvc'',
      aiLevel = ''easy'', playerSymbol = ''X'',
      scores = \<lparr>scoreX = 0, scoreO = 0, scoreDraw = 0\<rparr>, history = [],
      winningLine = None, lastMoveIndex = None, status = Started MarkX, pending = 1\<rparr>"
  have g2: "?g2 = G"
    unfolding G_def by code_simp
  have e: "replicate 9 None = ?e"
    by (simp add: numeral_nat)
  have null0: "idxIsNull ?e (Some 0)"
    by (simp add: idxIsNull_def isNull_def boardGet_def)
  have pick: "aiRandomMove ?e 0 = Some 0"
    using aiRandomMove_start by (simp add: e)
  have "board (fireTimer G ''easy'' 0 0)
      = [Some MarkO, None, None, None, None, None, None, None, None]"
    using null0 pick
    by (simp add: G_def fireTimer_def aiMakeMove_def chosenLevel_def badIndex_def Let_def
        makeMove_def checkWin_def WINNING_LINES_def lineComplete_def boardGet_def isDraw_def)
  then show ?thesis
    unfolding g2 by (simp add: G_def e)
qed

section \<open>The searches restore the board\<close>

lemma tryCells_frame: "snd (tryCells i b m) = b"
proof (induct i b m rule: tryCells.induct)
  case (1 i b m)
  show ?case
  proof (cases "i < 9 \<and> isNull b i")
    case False
    with 1 show ?thesis by (auto simp: tryCells.simps[of i])
  next
    case True
    then have r: "b[i := None] = b" by (simp add: isNull_update_None)
    with True 1(1)[OF _ _ refl] show ?thesis
      by (simp add: tryCells.simps[of i] Let_def)
  qed
qed

lemma limited_frame:
  "snd (limitedMinimaxScore b ai hu d t) = b"
  "snd (limitedLoop i b ai hu nd t best) = b"
proof (induct b ai hu d t and i b ai hu nd t best
       rule: limitedMinimaxScore_limitedLoop.induct)
  case (1 b ai hu depth isAiTurn)
  then show ?case
    by (auto simp: limitedMinimaxScore.simps[of b] split: option.splits)
next
  case (2 i b ai hu nd isAiTurn best)
  show ?case
  proof (cases "i < 9 \<and> isNull b i")
    case False
    with 2 show ?thesis by (auto simp: limitedLoop.simps[of i])
  next
    case True
    then have lt: "i < 9" and nl: "isNull b i" by simp_all
    define b1 where "b1 = b[i := Some (if isAiTurn then ai else hu)]"
    obtain v b2 where m: "limitedMinimaxScore b1 ai hu nd (\<not> isAiTurn) = (v, b2)"
      by (cases "limitedMinimaxScore b1 ai hu nd (\<not> isAiTurn)")
    have "snd (limitedMinimaxScore b1 ai hu nd (\<not> isAiTurn)) = b1"
      using 2(1)[OF _ nl b1_def] lt by simp
    with m have "b2 = b1" by simp
    then have b3: "b2[i := None] = b"
      unfolding b1_def using nl by (simp add: isNull_update_None)
    show ?thesis
      using 2(2)[OF _ nl b1_def m[symmetric] refl refl refl] lt nl m b3
      by (simp add: limitedLoop.simps[of i] b1_def[symmetric] Let_def)
  qed
qed

lemma cornerLoop_frame:
  "\<forall>c \<in> set cs. isNull b c \<Longrightarrow> snd (cornerLoop cs b ai hu best bestScore) = b"
proof (induction cs arbitrary: best bestScore)
  case Nil
  then show ?case by simp
next
  case (Cons c cs)
  then have nl: "isNull b c" by simp
  obtain sc b2 where m: "limitedMinimaxScore (b[c := Some ai]) ai hu 3 False = (sc, b2)"
    by (cases "limitedMinimaxScore (b[c := Some ai]) ai hu 3 False")
  from limited_frame(1)[of "b[c := Some ai]" ai hu 3 False] m
  have "b2 = b[c := Some ai]" by simp
  then have b3: "b2[c := None] = b" using nl by (simp add: isNull_update_None)
  from Cons.prems have rest: "\<forall>c \<in> set cs. isNull b c" by simp
  show ?case
    using m b3 Cons.IH[OF rest] by (simp add: Let_def)
qed

lemma minimax_frame:
  "snd (minimax b ai hu t al be d) = b"
  "snd (minimaxLoop i b ai hu t al be d best) = b"
proof (induct b ai hu t al be d and i b ai hu t al be d best
       rule: minimax_minimaxLoop.induct)
  case (1 b ai hu isAiTurn alpha beta depth)
  then show ?case
    by (auto simp add: minimax.simps[of b] split: option.splits)
next
  case (2 i b ai hu isAiTurn alpha beta depth best)
  show ?case
  proof (cases "i < 9 \<and> isNull b i")
    case False
    with 2 show ?thesis by (auto simp: minimaxLoop.simps[of i])
  next
    case True
    then have lt: "i < 9" and nl: "isNull b i" by simp_all
    define b1 where "b1 = b[i := Some (if isAiTurn then ai else hu)]"
    obtain r b2 where m: "minimax b1 ai hu (\<not> isAiTurn) alpha beta (depth + 1) = (r, b2)"
      by (cases "minimax b1 ai hu (\<not> isAiTurn) alpha beta (depth + 1)")
    have "snd (minimax b1 ai hu (\<not> isAiTurn) alpha beta (depth + 1)) = b1"
      using 2(1)[OF _ nl b1_def] lt by simp
    with m have b2: "b2 = b1" by simp
    have b3: "b2[i := None] = b" unfolding b2 b1_def using nl by (rule isNull_restore)
    show ?thesis
      using 2(2)[OF _ nl b1_def m[symmetric] refl refl refl _ refl refl]
            2(3)[OF _ nl b1_def m[symmetric] refl refl refl _ refl refl] lt nl m b3
      by (simp add: minimaxLoop.simps[of i] b1_def[symmetric] Let_def)
  qed
qed

text \<open>
  With the board restored after every recursive call, one iteration of the loop of
  \<open>minimax\<close> reads as follows: \<open>s\<close> is the score of the child, \<open>j\<close> the next index.
\<close>

lemma minimaxLoop_step:
  assumes "i < 9" "isNull b i" "j = i + 1" "n = int i"
  shows "minimaxLoop i b ai hu True al be d best =
     (let s = score (fst (minimax (b[i := Some ai]) ai hu False al be (d + 1)))
      in if be \<le> max al s
         then (if s > score best then \<lparr>index = Some n, score = s\<rparr> else best, b)
         else minimaxLoop j b ai hu True (max al s) be d
                (if s > score best then \<lparr>index = Some n, score = s\<rparr> else best))"
    and "minimaxLoop i b ai hu False al be d best =
     (let s = score (fst (minimax (b[i := Some hu]) ai hu True al be (d + 1)))
      in if min be s \<le> al
         then (if s < score best then \<lparr>index = Some n, score = s\<rparr> else best, b)
         else minimaxLoop j b ai hu False al (min be s) d
                (if s < score best then \<lparr>index = Some n, score = s\<rparr> else best))"
proof -
  show "minimaxLoop i b ai hu True al be d best =
     (let s = score (fst (minimax (b[i := Some ai]) ai hu False al be (d + 1)))
      in if be \<le> max al s
         then (if s > score best then \<lparr>index = Some n, score = s\<rparr> else best, b)
         else minimaxLoop j b ai hu True (max al s) be d
                (if s > score best then \<lparr>index = Some n, score = s\<rparr> else best))"
  proof -
    obtain r b2 where m: "minimax (b[i := Some ai]) ai hu False al be (d + 1) = (r, b2)"
      by (cases "minimax (b[i := Some ai]) ai hu False al be (d + 1)")
    from minimax_frame(1)[of "b[i := Some ai]" ai hu False al be "d + 1"] m
    have "b2 = b[i := Some ai]" by simp
    then have b3: "b2[i := None] = b" using assms(2) by (simp add: isNull_update_None)
    show ?thesis
      using assms m b3 by (cases r) (simp add: minimaxLoop.simps[of i] Let_def)
  qed
  show "minimaxLoop i b ai hu False al be d best =
     (let s = score (fst (minimax (b[i := Some hu]) ai hu True al be (d + 1)))
      in if min be s \<le> al
         then (if s < score best then \<lparr>index = Some n, score = s\<rparr> else best, b)
         else minimaxLoop j b ai hu False al (min be s) d
                (if s < score best then \<lparr>index = Some n, score = s\<rparr> else best))"
  proof -
    obtain r b2 where m: "minimax (b[i := Some hu]) ai hu True al be (d + 1) = (r, b2)"
      by (cases "minimax (b[i := Some hu]) ai hu True al be (d + 1)")
    from minimax_frame(1)[of "b[i := Some hu]" ai hu True al be "d + 1"] m
    have "b2 = b[i := Some hu]" by simp
    then have b3: "b2[i := None] = b" using assms(2) by (simp add: isNull_update_None)
    show ?thesis
      using assms m b3 by (cases r) (simp add: minimaxLoop.simps[of i] Let_def)
  qed
qed

lemma minimaxLoop_skip:
  "i < 9 \<Longrightarrow> \<not> isNull b i \<Longrightarrow> j = i + 1 \<Longrightarrow>
     minimaxLoop i b ai hu t al be d best = minimaxLoop j b ai hu t al be d best"
  by (simp add: minimaxLoop.simps[of i])

lemma minimaxLoop_exit: "\<not> i < 9 \<Longrightarrow> minimaxLoop i b ai hu t al be d best = (best, b)"
  by (simp add: minimaxLoop.simps[of i])

text \<open>
  Computation induction for \<open>minimax\<close> and its loop, with the restored board: the
  hypotheses speak of the board \<open>b\<close> itself after each recursive call.
\<close>

lemma minimax_loop_induct [case_names Node LoopExit LoopSkip LoopAi LoopHu]:
  assumes node: "\<And>b ai hu t al be d.
      (terminalResult b ai hu d = None \<Longrightarrow>
         Q 0 b ai hu t al be d \<lparr>index = Some (- 1), score = (if t then NegInf else PosInf)\<rparr>)
      \<Longrightarrow> P b ai hu t al be d"
    and lexit: "\<And>i b ai hu t al be d best. \<not> i < 9 \<Longrightarrow> Q i b ai hu t al be d best"
    and lskip: "\<And>i b ai hu t al be d best. i < 9 \<Longrightarrow> \<not> isNull b i \<Longrightarrow>
      Q (i + 1) b ai hu t al be d best \<Longrightarrow> Q i b ai hu t al be d best"
    and lai: "\<And>i b ai hu al be d best s. i < 9 \<Longrightarrow> isNull b i \<Longrightarrow>
      P (b[i := Some ai]) ai hu False al be (d + 1) \<Longrightarrow>
      s = score (fst (minimax (b[i := Some ai]) ai hu False al be (d + 1))) \<Longrightarrow>
      (\<not> be \<le> max al s \<Longrightarrow>
         Q (i + 1) b ai hu True (max al s) be d
           (if s > score best then \<lparr>index = Some (int i), score = s\<rparr> else best)) \<Longrightarrow>
      Q i b ai hu True al be d best"
    and lhu: "\<And>i b ai hu al be d best s. i < 9 \<Longrightarrow> isNull b i \<Longrightarrow>
      P (b[i := Some hu]) ai hu True al be (d + 1) \<Longrightarrow>
      s = score (fst (minimax (b[i := Some hu]) ai hu True al be (d + 1))) \<Longrightarrow>
      (\<not> min be s \<le> al \<Longrightarrow>
         Q (i + 1) b ai hu False al (min be s) d
           (if s < score best then \<lparr>index = Some (int i), score = s\<rparr> else best)) \<Longrightarrow>
      Q i b ai hu False al be d best"
  shows "P b ai hu t al be d" and "Q i b ai hu t al be d best"
proof (induct b ai hu t al be d and i b ai hu t al be d best
       rule: minimax_minimaxLoop.induct)
  case (1 b ai hu isAiTurn alpha beta depth)
  then show ?case by (intro node) simp
next
  case (2 i b ai hu isAiTurn alpha beta depth best)
  show ?case
  proof (cases "i < 9")
    case False
    then show ?thesis by (rule lexit)
  next
    case lt: True
    show ?thesis
    proof (cases "isNull b i")
      case False
      have "Q (i + 1) b ai hu isAiTurn alpha beta depth best"
        using lt False by (intro 2(4)) simp_all
      with lt False show ?thesis by (rule lskip)
    next
      case nl: True
      define mk where "mk = (if isAiTurn then ai else hu)"
      obtain r b2 where m: "minimax (b[i := Some mk]) ai hu (\<not> isAiTurn) alpha beta (depth + 1)
          = (r, b2)"
        by (cases "minimax (b[i := Some mk]) ai hu (\<not> isAiTurn) alpha beta (depth + 1)")
      from minimax_frame(1)[of "b[i := Some mk]" ai hu "\<not> isAiTurn" alpha beta "depth + 1"] m
      have "b2 = b[i := Some mk]" by simp
      then have b3: "b2[i := None] = b" using nl by (simp add: isNull_update_None)
      have sr: "score r = score (fst (minimax (b[i := Some mk]) ai hu (\<not> isAiTurn) alpha beta
          (depth + 1)))"
        using m by simp
      obtain rx rs where ri: "r = \<lparr>index = rx, score = rs\<rparr>"
        by (cases r) simp
      have p: "P (b[i := Some mk]) ai hu (\<not> isAiTurn) alpha beta (depth + 1)"
        unfolding mk_def using lt by (intro 2(1)[OF _ nl refl]) simp
      show ?thesis
      proof (cases isAiTurn)
        case True
        then have mk: "mk = ai" by (simp add: mk_def)
        have m': "(r, b2) = minimax (b[i := Some (if isAiTurn then ai else hu)]) ai hu
            (\<not> isAiTurn) alpha beta (depth + 1)"
          using m by (simp add: mk_def)
        have q: "\<not> beta \<le> max alpha (score r) \<Longrightarrow>
            Q (i + 1) b ai hu True (max alpha (score r)) beta depth
              (if score r > score best then \<lparr>index = Some (int i), score = score r\<rparr> else best)"
          using 2(2)[OF _ nl refl refl m' refl refl True refl refl] lt True
          by (cases "score r > score best") (simp_all add: b3 ri)
        have "Q i b ai hu True alpha beta depth best"
        proof (rule lai[OF lt nl _ _ q])
          show "P (b[i := Some ai]) ai hu False alpha beta (depth + 1)"
            using p True mk by simp
          show "score r = score (fst (minimax (b[i := Some ai]) ai hu False alpha beta (depth + 1)))"
            using sr True mk by simp
        qed
        with True show ?thesis by simp
      next
        case False
        then have mk: "mk = hu" by (simp add: mk_def)
        have m': "(r, b2) = minimax (b[i := Some (if isAiTurn then ai else hu)]) ai hu
            (\<not> isAiTurn) alpha beta (depth + 1)"
          using m by (simp add: mk_def)
        have q: "\<not> min beta (score r) \<le> alpha \<Longrightarrow>
            Q (i + 1) b ai hu False alpha (min beta (score r)) depth
              (if score r < score best then \<lparr>index = Some (int i), score = score r\<rparr> else best)"
          using 2(3)[OF _ nl refl refl m' refl refl False refl refl] lt False
          by (cases "score r < score best") (simp_all add: b3 ri)
        have "Q i b ai hu False alpha beta depth best"
        proof (rule lhu[OF lt nl _ _ q])
          show "P (b[i := Some hu]) ai hu True alpha beta (depth + 1)"
            using p False mk by simp
          show "score r = score (fst (minimax (b[i := Some hu]) ai hu True alpha beta (depth + 1)))"
            using sr False mk by simp
        qed
        with False show ?thesis by simp
      qed
    qed
  qed
qed

lemma tryCells_result_board: "tryCells i b m = (w, b') \<Longrightarrow> b' = b"
  using tryCells_frame[of i b m] by simp

lemma cornerLoop_result_board:
  "cornerLoop (filter (isNull b) xs) b ai hu best bestScore = (x, b') \<Longrightarrow> b' = b"
  using cornerLoop_frame[of "filter (isNull b) xs" b ai hu best bestScore] by simp

lemma aiDifficultMove_frame: "snd (aiDifficultMove b ai u) = b"
proof -
  define hu where "hu = (if ai = MarkX then MarkO else MarkX)"
  obtain w b1 where t1: "tryCells 0 b ai = (w, b1)" by (cases "tryCells 0 b ai")
  then have b1: "b1 = b" by (rule tryCells_result_board)
  obtain bl b2 where t2: "tryCells 0 b hu = (bl, b2)" by (cases "tryCells 0 b hu")
  then have b2: "b2 = b" by (rule tryCells_result_board)
  define cs where "cs = filter (isNull b) [0, 2, 6, 8]"
  obtain best b3 where c: "cornerLoop cs b ai hu (cs ! 0) NegInf = (best, b3)"
    by (cases "cornerLoop cs b ai hu (cs ! 0) NegInf")
  then have b3: "b3 = b" unfolding cs_def by (rule cornerLoop_result_board)
  have "aiDifficultMove b ai u =
     (case w of
        Some i \<Rightarrow> (Some (int i), b)
      | None \<Rightarrow>
         (case bl of
            Some i \<Rightarrow> (Some (int i), b)
          | None \<Rightarrow>
              if isNull b 4 then (Some 4, b)
              else if length cs > 0 then (Some (int best), b)
              else (let sides = filter (isNull b) [1, 3, 5, 7]
                    in if length sides > 0 then (randomPick sides u, b)
                       else (aiRandomMove b u, b))))"
    unfolding aiDifficultMove_def hu_def[symmetric] Let_def t1 b1 prod.case
      t2[unfolded b2] cs_def[symmetric] c[unfolded b3]
    by (rule refl)
  then show ?thesis
    by (simp add: Let_def split: option.splits)
qed

text \<open>
  Claim C7. \<open>aiDifficultMove\<close>, \<open>limitedMinimaxScore\<close> and \<open>minimax\<close> return the board
  they were given: every cell written during the search holds \<open>null\<close> again when the
  call returns, so the caller's board is the same, cell for cell.
\<close>

theorem C7_search_restores_board:
  "snd (aiDifficultMove b aiSymbol u) = b
   \<and> snd (limitedMinimaxScore b aiSymbol humanSymbol depth isAiTurn) = b
   \<and> snd (minimax b aiSymbol humanSymbol isAiTurn alpha beta mdepth) = b"
  by (simp add: aiDifficultMove_frame limited_frame(1) minimax_frame(1))

section \<open>The Heuristic Strategy: win, then block\<close>


















section \<open>The Optimal Strategy names an empty cell\<close>

lemma mark_two: "hu \<noteq> ai \<Longrightarrow> (m::mark) = ai \<or> m = hu"
  by (cases m; cases ai; cases hu) simp_all

lemma terminalResult_finite:
  "terminalResult b ai hu d = Some r \<Longrightarrow> \<exists>f. score r = Fin f"
  by (auto simp: terminalResult_def split: option.splits if_splits)

lemma not_terminal_has_empty:
  assumes "terminalResult b ai hu d = None" "hu \<noteq> ai" "length b = 9"
  shows "\<exists>j < 9. isNull b j"
proof -
  from assms(1,2) have "\<not> isDraw b" "checkWin b = None"
    using mark_two[OF assms(2)]
    by (auto simp: terminalResult_def split: option.splits if_splits)
  then have "\<not> list_all (\<lambda>c. c \<noteq> None) b" by (simp add: isDraw_def)
  then obtain c where "c \<in> set b" "c = None" by (auto simp: list_all_iff)
  then obtain j where "j < length b" "b ! j = None" by (auto simp: in_set_conv_nth)
  with assms(3) show ?thesis by (auto simp: isNull_def boardGet_def)
qed

lemma NegInf_less_Fin: "NegInf < Fin f"
  by (simp add: less_score_def less_eq_score_def)

lemma Fin_less_PosInf: "Fin f < PosInf"
  by (simp add: less_score_def less_eq_score_def)

lemma minimax_valid:
  "length b = 9 \<Longrightarrow> hu \<noteq> ai \<Longrightarrow>
     (\<exists>f. score (fst (minimax b ai hu t al be d)) = Fin f) \<and>
     (terminalResult b ai hu d = None \<longrightarrow> validResult b (fst (minimax b ai hu t al be d)))"
  "length b = 9 \<Longrightarrow> hu \<noteq> ai \<Longrightarrow>
     validResult b best \<or>
       (score best = (if t then NegInf else PosInf) \<and> (\<exists>j. i \<le> j \<and> j < 9 \<and> isNull b j)) \<Longrightarrow>
     validResult b (fst (minimaxLoop i b ai hu t al be d best))"
proof (induct b ai hu t al be d and i b ai hu t al be d best rule: minimax_loop_induct)
  case (Node b ai hu t al be d)
  show ?case
  proof (cases "terminalResult b ai hu d")
    case (Some r)
    with terminalResult_finite[OF Some] show ?thesis
      by (simp add: minimax.simps[of b])
  next
    case None
    from not_terminal_has_empty[OF None Node(3) Node(2)]
    obtain j where "j < 9" "isNull b j" by blast
    then have "score \<lparr>index = Some (- 1), score = (if t then NegInf else PosInf)\<rparr>
          = (if t then NegInf else PosInf) \<and> (\<exists>j. 0 \<le> j \<and> j < 9 \<and> isNull b j)"
      by auto
    then have "validResult b (fst (minimaxLoop 0 b ai hu t al be d
        \<lparr>index = Some (- 1), score = (if t then NegInf else PosInf)\<rparr>))"
      by (intro Node(1)[OF None Node(2) Node(3)] disjI2)
    with None show ?thesis
      by (auto simp: minimax.simps[of b] validResult_def)
  qed
next
  case (LoopExit i b ai hu t al be d best)
  then show ?case by (auto simp: minimaxLoop_exit)
next
  case (LoopSkip i b ai hu t al be d best)
  have "validResult b best \<or>
    (score best = (if t then NegInf else PosInf) \<and> (\<exists>j. i + 1 \<le> j \<and> j < 9 \<and> isNull b j))"
  proof -
    { fix j assume "i \<le> j" "isNull b j"
      with LoopSkip(2) have "j \<noteq> i" by auto
      with \<open>i \<le> j\<close> have "i + 1 \<le> j" by simp }
    with LoopSkip(6) show ?thesis by blast
  qed
  from LoopSkip(3)[OF LoopSkip(4,5) this] show ?case
    using minimaxLoop_skip[OF LoopSkip(1,2) refl] by simp
next
  case (LoopAi i b ai hu al be d best s)
  have "length (b[i := Some ai]) = 9" using LoopAi(6) by simp
  from LoopAi(3)[OF this LoopAi(7)] LoopAi(4) obtain f where s: "s = Fin f" by auto
  define best' where "best' = (if s > score best then \<lparr>index = Some (int i), score = s\<rparr> else best)"
  have vres: "validResult b \<lparr>index = Some (int i), score = s\<rparr>"
    using LoopAi(1,2) s by (auto simp: validResult_def)
  have vb: "validResult b best'"
  proof (cases "validResult b best")
    case True
    with vres show ?thesis by (simp add: best'_def)
  next
    case False
    with LoopAi(8) have "score best = NegInf" by simp
    then have "s > score best" using s by (simp add: NegInf_less_Fin)
    with vres show ?thesis by (simp add: best'_def)
  qed
  show ?case
  proof (cases "be \<le> max al s")
    case True
    with vb show ?thesis
      by (simp add: minimaxLoop_step(1)[OF LoopAi(1,2) refl refl] LoopAi(4)[symmetric]
          best'_def Let_def)
  next
    case False
    from LoopAi(5)[OF False LoopAi(6,7)] vb
    have "validResult b (fst (minimaxLoop (i + 1) b ai hu True (max al s) be d best'))"
      by (simp add: best'_def)
    with False show ?thesis
      by (simp add: minimaxLoop_step(1)[OF LoopAi(1,2) refl refl] LoopAi(4)[symmetric]
          best'_def Let_def)
  qed
next
  case (LoopHu i b ai hu al be d best s)
  have "length (b[i := Some hu]) = 9" using LoopHu(6) by simp
  from LoopHu(3)[OF this LoopHu(7)] LoopHu(4) obtain f where s: "s = Fin f" by auto
  define best' where "best' = (if s < score best then \<lparr>index = Some (int i), score = s\<rparr> else best)"
  have vres: "validResult b \<lparr>index = Some (int i), score = s\<rparr>"
    using LoopHu(1,2) s by (auto simp: validResult_def)
  have vb: "validResult b best'"
  proof (cases "validResult b best")
    case True
    with vres show ?thesis by (simp add: best'_def)
  next
    case False
    with LoopHu(8) have "score best = PosInf" by simp
    then have "s < score best" using s by (simp add: Fin_less_PosInf)
    with vres show ?thesis by (simp add: best'_def)
  qed
  show ?case
  proof (cases "min be s \<le> al")
    case True
    with vb show ?thesis
      by (simp add: minimaxLoop_step(2)[OF LoopHu(1,2) refl refl] LoopHu(4)[symmetric]
          best'_def Let_def)
  next
    case False
    from LoopHu(5)[OF False LoopHu(6,7)] vb
    have "validResult b (fst (minimaxLoop (i + 1) b ai hu False al (min be s) d best'))"
      by (simp add: best'_def)
    with False show ?thesis
      by (simp add: minimaxLoop_step(2)[OF LoopHu(1,2) refl refl] LoopHu(4)[symmetric]
          best'_def Let_def)
  qed
qed

lemma terminalResult_None_I:
  assumes "length b = 9" "checkWin b = None" "\<exists>i < 9. b ! i = None"
  shows "terminalResult b ai hu d = None"
proof -
  from assms(1,3) have "\<not> list_all (\<lambda>c. c \<noteq> None) b"
    by (auto simp: list_all_length)
  with assms(2) show ?thesis by (simp add: terminalResult_def isDraw_def)
qed

lemma validResult_D:
  assumes "validResult b r" "length b = 9"
  shows "\<exists>k < 9. index r = Some (int k) \<and> b ! k = None"
  using assms by (auto simp: validResult_def isNull_def boardGet_def)

lemma not_badIndex_I: "k < 9 \<Longrightarrow> length b = 9 \<Longrightarrow> b ! k = None \<Longrightarrow> \<not> badIndex b (Some (int k))"
  by (simp add: badIndex_def idxIsNull_def isNull_def boardGet_def)

text \<open>
  Claim C10. On a board of nine cells with no complete line and at least one empty cell,
  \<open>minimax\<close> called at the root with the bounds \<open>-Infinity\<close> and \<open>+Infinity\<close>, for
  either side to move, never returns the index \<open>-1\<close>: the index it returns is that of
  an empty cell. So \<open>aiMinimaxMove\<close> on such a board that is not all empty returns the
  index of an empty cell, and the test that sends \<open>aiMakeMove\<close> to the random fallback
  is false of it.
\<close>

theorem C10_minimax_names_empty_cell:
  assumes "length b = 9" "checkWin b = None" "\<exists>i < 9. b ! i = None"
  shows "index (fst (minimax b ai (other ai) t NegInf PosInf 0)) \<noteq> Some (- 1)
     \<and> (\<exists>k < 9. index (fst (minimax b ai (other ai) t NegInf PosInf 0)) = Some (int k)
            \<and> b ! k = None)
     \<and> (\<not> list_all (\<lambda>c. c = None) b \<longrightarrow>
          (\<exists>k < 9. aiMinimaxMove b ai u = Some (int k) \<and> b ! k = None)
          \<and> \<not> badIndex b (aiMinimaxMove b ai u))"
proof -
  have ne: "other ai \<noteq> ai" by (cases ai) (simp_all add: other_def)
  from terminalResult_None_I[OF assms] have "terminalResult b ai (other ai) 0 = None" .
  with minimax_valid(1)[OF assms(1) ne, of t NegInf PosInf 0]
  have "validResult b (fst (minimax b ai (other ai) t NegInf PosInf 0))" by simp
  from validResult_D[OF this assms(1)] obtain k where
    k: "k < 9" "index (fst (minimax b ai (other ai) t NegInf PosInf 0)) = Some (int k)"
       "b ! k = None" by blast
  have root: "\<And>t. \<exists>k < 9. index (fst (minimax b ai (other ai) t NegInf PosInf 0)) = Some (int k)
            \<and> b ! k = None"
  proof -
    fix t
    from terminalResult_None_I[OF assms] have "terminalResult b ai (other ai) 0 = None" .
    with minimax_valid(1)[OF assms(1) ne, of t NegInf PosInf 0]
    have "validResult b (fst (minimax b ai (other ai) t NegInf PosInf 0))" by simp
    from validResult_D[OF this assms(1)] show "\<exists>k < 9.
        index (fst (minimax b ai (other ai) t NegInf PosInf 0)) = Some (int k) \<and> b ! k = None" .
  qed
  have mv: "\<not> list_all (\<lambda>c. c = None) b \<Longrightarrow>
      aiMinimaxMove b ai u = index (fst (minimax b ai (other ai) True NegInf PosInf 0))"
    by (simp add: aiMinimaxMove_def other_def Let_def)
  from k have "index (fst (minimax b ai (other ai) t NegInf PosInf 0)) \<noteq> Some (- 1)" by simp
  moreover have "\<not> list_all (\<lambda>c. c = None) b \<longrightarrow>
          (\<exists>k < 9. aiMinimaxMove b ai u = Some (int k) \<and> b ! k = None)
          \<and> \<not> badIndex b (aiMinimaxMove b ai u)"
    using root[of True] mv not_badIndex_I[OF _ assms(1)] by auto
  ultimately show ?thesis using k by blast
qed

text \<open>The board \<open>X - - / - O - / - - -\<close>, with X to move.\<close>

theorem C10_minimax_names_empty_cell_witness:
  "length [Some MarkX, None, None, None, Some MarkO, None, None, None, None] = 9
   \<and> checkWin [Some MarkX, None, None, None, Some MarkO, None, None, None, None] = None
   \<and> index (fst (minimax [Some MarkX, None, None, None, Some MarkO, None, None, None, None]
         MarkX (other MarkX) True NegInf PosInf 0)) \<noteq> Some (- 1)
   \<and> \<not> badIndex [Some MarkX, None, None, None, Some MarkO, None, None, None, None]
         (aiMinimaxMove [Some MarkX, None, None, None, Some MarkO, None, None, None, None] MarkX 0)"
proof -
  let ?b = "[Some MarkX, None, None, None, Some MarkO, None, None, None, None]"
  have l: "length ?b = 9" by simp
  have w: "checkWin ?b = None" by code_simp
  have e: "\<exists>i < 9. ?b ! i = None" by (intro exI[of _ 1]) simp
  have n: "\<not> list_all (\<lambda>c. c = None) ?b" by simp
  from C10_minimax_names_empty_cell[OF l w e, of MarkX True 0] n l w show ?thesis by blast
qed

section \<open>The strategy selector applies a legal move\<close>

lemma randomPick_valid:
  assumes "xs \<noteq> []" "0 \<le> u" "u < 1"
  shows "\<exists>j < length xs. randomPick xs u = Some (int (xs ! j))"
proof -
  define n where "n = length xs"
  define k where "k = \<lfloor>u * real n\<rfloor>"
  from assms(1) have n: "0 < real n" by (simp add: n_def)
  have "0 \<le> u * real n" using assms(2) n by (intro mult_nonneg_nonneg) simp_all
  then have k0: "0 \<le> k" unfolding k_def by (rule iffD2[OF zero_le_floor])
  have "u * real n < 1 * real n" using assms(3) n by (rule mult_strict_right_mono)
  then have "u * real n < of_int (int n)" by simp
  then have k1: "k < int n" unfolding k_def by (rule iffD2[OF floor_less_iff])
  from k0 k1 have j: "nat k < n" by linarith
  have "randomPick xs u = Some (int (xs ! nat k))"
    unfolding randomPick_def Let_def n_def[symmetric] k_def[symmetric]
    using k0 k1 by simp
  with j show ?thesis unfolding n_def by blast
qed

lemma emptyCells_mem: "i \<in> set (emptyCells b) \<longleftrightarrow> i < length b \<and> b ! i = None"
  unfolding emptyCells_def by simp

lemma aiRandomMove_valid:
  assumes "\<exists>i < length b. b ! i = None" "0 \<le> u" "u < 1"
  shows "\<exists>k < length b. aiRandomMove b u = Some (int k) \<and> b ! k = None"
proof -
  from assms(1) obtain i where "i \<in> set (emptyCells b)"
    unfolding emptyCells_mem by blast
  then have ne: "emptyCells b \<noteq> []" by (cases "emptyCells b") simp_all
  from randomPick_valid[OF ne assms(2,3)] obtain j where
    j: "j < length (emptyCells b)" "randomPick (emptyCells b) u = Some (int (emptyCells b ! j))"
    by blast
  from j(1) have "emptyCells b ! j \<in> set (emptyCells b)" by (rule nth_mem)
  then have v: "emptyCells b ! j < length b \<and> b ! (emptyCells b ! j) = None"
    unfolding emptyCells_mem .
  from ne have "aiRandomMove b u = randomPick (emptyCells b) u"
    by (simp add: aiRandomMove_def Let_def)
  with j(2) v show ?thesis by auto
qed

lemma makeMove_board:
  assumes "idxIsNull (board g) (Some (int k))"
  shows "board (snd (makeMove g (Some (int k)) m)) = (board g)[k := Some m]"
proof (cases "checkWin ((board g)[k := Some m])")
  case None
  with assms show ?thesis
    by (simp add: makeMove_def Let_def addHistory_def)
next
  case (Some w)
  with assms show ?thesis
    by (simp add: makeMove_def Let_def addHistory_def)
qed

lemma board_update_same: "g\<lparr>board := board g\<rparr> = g"
  by simp

text \<open>
  Claim C6. In a running game on a board of nine cells with at least one empty cell,
  for every difficulty string, \<open>aiMakeMove\<close> (strategy, test of the index, fallback to
  \<open>aiRandomMove\<close>, \<open>makeMove\<close>) writes the AI's mark into a cell \<open>k\<close> in 0..8 that was
  empty, and changes no other cell. \<open>Math.random()\<close> returns numbers in \<open>[0, 1)\<close>.
  The model has no raising step: every array read outside the range yields
  \<open>undefined\<close>, as in the source.
\<close>

theorem C6_selector_applies_legal_move:
  assumes "running g" "length (board g) = 9" "\<exists>i < 9. board g ! i = None"
    and "0 \<le> u1" "u1 < 1" "0 \<le> u2" "u2 < 1"
  shows "\<exists>k < 9. board g ! k = None \<and>
      board (aiMakeMove g sel u1 u2)
        = (board g)[k := Some (if playerSymbol g = ''X'' then MarkO else MarkX)]"
proof -
  define ai where "ai = (if playerSymbol g = ''X'' then MarkO else MarkX)"
  define level where "level = chosenLevel g sel"
  define res where "res =
     (if level = ''easy'' then (aiRandomMove (board g) u1, board g)
      else if level = ''difficult'' then aiDifficultMove (board g) ai u1
      else (aiMinimaxMove (board g) ai u1, board g))"
  define drew where "drew =
     (if level = ''easy'' then aiRandomDraws (board g)
      else if level = ''difficult'' then aiDifficultDraws (board g) ai
      else aiMinimaxDraws (board g))"
  define u where "u = (if drew then u2 else u1)"
  have u: "0 \<le> u" "u < 1" using assms(4-7) by (simp_all add: u_def)
  have sb: "snd res = board g"
    unfolding res_def using aiDifficultMove_frame[of "board g" ai u1] by simp
  then obtain idx where res: "res = (idx, board g)"
    by (cases res) simp
  define idx' where "idx' = (if badIndex (board g) idx then aiRandomMove (board g) u else idx)"
  have "aiMakeMove g sel u1 u2 =
      (case res of (idx, b') \<Rightarrow>
         snd (makeMove (g\<lparr>board := b'\<rparr>)
           (if badIndex (board (g\<lparr>board := b'\<rparr>)) idx
            then aiRandomMove (board (g\<lparr>board := b'\<rparr>)) u else idx) ai))"
    unfolding aiMakeMove_def Let_def ai_def[symmetric] level_def[symmetric] res_def[symmetric]
      drew_def[symmetric] u_def[symmetric]
    by (simp only: assms(1) not_True_eq_False if_False)
  also have "\<dots> = snd (makeMove g idx' ai)"
    unfolding res prod.case idx'_def board_update_same
    by (simp only: board_update_same game.simps)
  finally have am: "aiMakeMove g sel u1 u2 = snd (makeMove g idx' ai)" .
  have "\<exists>k < 9. idx' = Some (int k) \<and> board g ! k = None"
  proof (cases "badIndex (board g) idx")
    case True
    from assms(2,3) have "\<exists>i < length (board g). board g ! i = None" by simp
    from aiRandomMove_valid[OF this u] True assms(2) show ?thesis
      by (simp add: idx'_def)
  next
    case False
    then obtain i where i: "idx = Some i" "0 \<le> i" "i \<le> 8" "idxIsNull (board g) idx"
      by (cases idx) (auto simp: badIndex_def)
    then have "nat i < 9" "idx = Some (int (nat i))" "board g ! nat i = None"
      using assms(2) by (auto simp: idxIsNull_def isNull_def boardGet_def split: if_splits)
    with False show ?thesis by (auto simp: idx'_def)
  qed
  then obtain k where k: "k < 9" "idx' = Some (int k)" "board g ! k = None" by blast
  with assms(2) have "idxIsNull (board g) (Some (int k))"
    by (simp add: idxIsNull_def isNull_def boardGet_def)
  from makeMove_board[OF this, of ai] k am show ?thesis
    unfolding ai_def by auto
qed

text \<open>
  The AI opens a game of mode \<open>pvc\<close> and level \<open>hard\<close> in which the human plays O.
\<close>

theorem C6_selector_applies_legal_move_witness:
  "running (startGame initialGame
      \<lparr>modeSelect = ''pvc'', aiLevelSelect = ''hard'', playerSymbolSelect = ''O''\<rparr>)
   \<and> length (board (startGame initialGame
      \<lparr>modeSelect = ''pvc'', aiLevelSelect = ''hard'', playerSymbolSelect = ''O''\<rparr>)) = 9
   \<and> (\<exists>k < 9. board (aiMakeMove (startGame initialGame
      \<lparr>modeSelect = ''pvc'', aiLevelSelect = ''hard'', playerSymbolSelect = ''O''\<rparr>)
        ''hard'' 0 0) = (replicate 9 None)[k := Some MarkX])"
proof -
  let ?g = "startGame initialGame
      \<lparr>modeSelect = ''pvc'', aiLevelSelect = ''hard'', playerSymbolSelect = ''O''\<rparr>"
  have r: "running ?g" and l: "length (board ?g) = 9" and b: "board ?g = replicate 9 None"
    and p: "playerSymbol ?g = ''O''"
    by (simp_all add: startGame_def initialGame_def Let_def)
  have e: "\<exists>i < 9. board ?g ! i = None" unfolding b by (intro exI[of _ 0]) simp
  from C6_selector_applies_legal_move[OF r l e, of 0 0 "''hard''"]
  obtain k where "k < 9" "board (aiMakeMove ?g ''hard'' 0 0)
      = (board ?g)[k := Some (if playerSymbol ?g = ''X'' then MarkO else MarkX)]"
    by auto
  then have "k < 9 \<and> board (aiMakeMove ?g ''hard'' 0 0) = (replicate 9 None)[k := Some MarkX]"
    unfolding b p by simp
  with r l show ?thesis by blast
qed

section \<open>Pruning does not change the value of the root\<close>

lemma failSoft_max_step:
  fixes al be best v r W R' :: "'a::linorder"
  assumes ab: "al < be" and ba: "best \<le> al" and ch: "failSoft al be v r"
    and rest: "\<not> be \<le> max al r \<Longrightarrow> max best r \<le> R' \<and> failSoft (max al r) be W R'"
  shows "best \<le> (if be \<le> max al r then max best r else R') \<and>
         failSoft al be (max v W) (if be \<le> max al r then max best r else R')"
proof (cases "be \<le> max al r")
  case True
  with ab have br: "be \<le> r" by (auto simp: le_max_iff_disj)
  with ab ba have "best \<le> r" by simp
  then have R: "max best r = r" by (simp add: max_def)
  from ch br have "r \<le> v" by (simp add: failSoft_def)
  then have rv: "r \<le> max v W" by (simp add: le_max_iff_disj)
  from ab br have "\<not> r \<le> al" "\<not> r < be" by simp_all
  with True R rv \<open>best \<le> r\<close> show ?thesis by (simp add: failSoft_def)
next
  case False
  then have rb: "r < be" by (auto simp: le_max_iff_disj)
  from rest[OF False] have m: "max best r \<le> R'" and fs: "failSoft (max al r) be W R'" by simp_all
  from m have bR: "best \<le> R'" and rR: "r \<le> R'" by simp_all
  have 1: "R' \<le> al \<longrightarrow> max v W \<le> R'"
  proof
    assume a: "R' \<le> al"
    with rR have "r \<le> al" by simp
    with ch have "v \<le> r" by (simp add: failSoft_def)
    with rR have vR: "v \<le> R'" by simp
    from a have "R' \<le> max al r" by (simp add: le_max_iff_disj)
    with fs have "W \<le> R'" by (simp add: failSoft_def)
    with vR show "max v W \<le> R'" by simp
  qed
  have 2: "be \<le> R' \<longrightarrow> R' \<le> max v W"
  proof
    assume "be \<le> R'"
    with fs have "R' \<le> W" by (simp add: failSoft_def)
    then show "R' \<le> max v W" by (simp add: le_max_iff_disj)
  qed
  have 3: "al < R' \<and> R' < be \<longrightarrow> R' = max v W"
  proof
    assume a: "al < R' \<and> R' < be"
    show "R' = max v W"
    proof (cases "R' \<le> max al r")
      case True
      with a have "R' \<le> r" by (auto simp: le_max_iff_disj)
      with rR have e: "r = R'" by simp
      with a ch have "v = R'" by (auto simp: failSoft_def)
      moreover from fs True have "W \<le> R'" by (simp add: failSoft_def)
      ultimately show ?thesis by (simp add: max_def)
    next
      case False
      then have lt: "max al r < R'" by (simp add: not_le)
      with a fs have W: "R' = W" by (simp add: failSoft_def)
      from lt have rl: "r < R'" by simp
      have "v \<le> R'"
      proof (cases "r \<le> al")
        case True
        with ch have "v \<le> r" by (simp add: failSoft_def)
        with rl show ?thesis by simp
      next
        case False
        with rb ch have "r = v" by (simp add: failSoft_def)
        with rl show ?thesis by simp
      qed
      with W show ?thesis by (simp add: max_def)
    qed
  qed
  from False bR 1 2 3 show ?thesis by (simp add: failSoft_def)
qed

lemma failSoft_min_step:
  fixes al be best v r W R' :: "'a::linorder"
  assumes ab: "al < be" and ba: "be \<le> best" and ch: "failSoft al be v r"
    and rest: "\<not> min be r \<le> al \<Longrightarrow> R' \<le> min best r \<and> failSoft al (min be r) W R'"
  shows "(if min be r \<le> al then min best r else R') \<le> best \<and>
         failSoft al be (min v W) (if min be r \<le> al then min best r else R')"
proof (cases "min be r \<le> al")
  case True
  with ab have ra: "r \<le> al" by (auto simp: min_le_iff_disj)
  with ab ba have "r \<le> best" by simp
  then have R: "min best r = r" by (simp add: min_def)
  from ch ra have "v \<le> r" by (simp add: failSoft_def)
  then have rv: "min v W \<le> r" by (simp add: min_le_iff_disj)
  from ab ra have "\<not> be \<le> r" "\<not> al < r" by simp_all
  with True R rv \<open>r \<le> best\<close> show ?thesis by (simp add: failSoft_def)
next
  case False
  then have rb: "al < r" by (auto simp: min_le_iff_disj)
  from rest[OF False] have m: "R' \<le> min best r" and fs: "failSoft al (min be r) W R'" by simp_all
  from m have bR: "R' \<le> best" and rR: "R' \<le> r" by simp_all
  have 1: "be \<le> R' \<longrightarrow> R' \<le> min v W"
  proof
    assume a: "be \<le> R'"
    with rR have "be \<le> r" by simp
    with ch have "r \<le> v" by (simp add: failSoft_def)
    with rR have vR: "R' \<le> v" by simp
    from a have "min be r \<le> R'" by (simp add: min_le_iff_disj)
    with fs have "R' \<le> W" by (simp add: failSoft_def)
    with vR show "R' \<le> min v W" by simp
  qed
  have 2: "R' \<le> al \<longrightarrow> min v W \<le> R'"
  proof
    assume "R' \<le> al"
    with fs have "W \<le> R'" by (simp add: failSoft_def)
    then show "min v W \<le> R'" by (simp add: min_le_iff_disj)
  qed
  have 3: "al < R' \<and> R' < be \<longrightarrow> R' = min v W"
  proof
    assume a: "al < R' \<and> R' < be"
    show "R' = min v W"
    proof (cases "min be r \<le> R'")
      case True
      with a have "r \<le> R'" by (auto simp: min_le_iff_disj)
      with rR have e: "r = R'" by simp
      with a ch have "v = R'" by (auto simp: failSoft_def)
      moreover from fs True have "R' \<le> W" by (simp add: failSoft_def)
      ultimately show ?thesis by (simp add: min_def)
    next
      case False
      then have lt: "R' < min be r" by (simp add: not_le)
      with a fs have W: "R' = W" by (simp add: failSoft_def)
      from lt have rl: "R' < r" by simp
      have "R' \<le> v"
      proof (cases "be \<le> r")
        case True
        with ch have "r \<le> v" by (simp add: failSoft_def)
        with rl show ?thesis by simp
      next
        case False
        with rb ch have "r = v" by (simp add: failSoft_def)
        with rl show ?thesis by simp
      qed
      with W show ?thesis by (simp add: min_def)
    qed
  qed
  from False bR 1 2 3 show ?thesis by (simp add: failSoft_def)
qed

lemma failSoft_full: "failSoft al be v r \<Longrightarrow> (\<forall>x. al \<le> x) \<Longrightarrow> (\<forall>x. x \<le> be) \<Longrightarrow> r = v"
  unfolding failSoft_def by (metis antisym_conv not_le)

lemma childValues_exit: "\<not> i < 9 \<Longrightarrow> childValues i b ai t d = []"
  by (simp add: childValues_def)

lemma childValues_skip: "i < 9 \<Longrightarrow> \<not> isNull b i \<Longrightarrow>
    childValues i b ai t d = childValues (i + 1) b ai t d"
  by (simp add: childValues_def upt_conv_Cons)

lemma childValues_step: "i < 9 \<Longrightarrow> isNull b i \<Longrightarrow>
    childValues i b ai t d =
      fullMinimax (b[i := Some (if t then ai else other ai)]) ai (\<not> t) (d + 1)
        # childValues (i + 1) b ai t d"
  by (simp add: childValues_def upt_conv_Cons)

lemma fullMinimax_InProgress:
  "evaluate b = InProgress \<Longrightarrow>
     fullMinimax b ai t d =
       (if t then foldr max (childValues 0 b ai True d) NegInf
        else foldr min (childValues 0 b ai False d) PosInf)"
  by (simp add: fullMinimax.simps[of b] childValues_def Let_def)

lemma terminalResult_evaluate:
  "terminalResult b ai (other ai) d =
     (case evaluate b of
        Win m l \<Rightarrow> Some \<lparr>index = None,
                         score = (if m = ai then Fin (100 - d) else Fin (- 100 + d))\<rparr>
      | Draw \<Rightarrow> Some \<lparr>index = None, score = Fin 0\<rparr>
      | InProgress \<Rightarrow> None)"
proof (cases "checkWin b")
  case None
  then show ?thesis by (simp add: terminalResult_def evaluate_def)
next
  case (Some w)
  have "winner w \<noteq> ai \<Longrightarrow> winner w = other ai"
    by (cases "winner w"; cases ai) (simp_all add: other_def)
  with Some show ?thesis by (auto simp: terminalResult_def evaluate_def)
qed

lemma failSoft_refl: "failSoft al be v v"
  by (simp add: failSoft_def)

lemma NegInf_least: "NegInf \<le> (x::score)"
  by (simp add: less_eq_score_def)

lemma PosInf_greatest: "(x::score) \<le> PosInf"
  by (cases x) (simp_all add: less_eq_score_def)

lemma fullMinimax_terminal:
  "terminalResult b ai (other ai) d = Some r \<Longrightarrow> fullMinimax b ai t d = score r"
  by (auto simp: terminalResult_evaluate fullMinimax.simps[of b] split: outcome.splits)

lemma terminalResult_None_InProgress:
  "terminalResult b ai (other ai) d = None \<Longrightarrow> evaluate b = InProgress"
  by (auto simp: terminalResult_evaluate split: outcome.splits)

lemma minimax_failSoft:
  "hu = other ai \<longrightarrow> al < be \<longrightarrow>
     failSoft al be (fullMinimax b ai t d) (score (fst (minimax b ai hu t al be d)))"
  "hu = other ai \<longrightarrow> al < be \<longrightarrow>
     (t \<longrightarrow> score best \<le> al \<longrightarrow>
        score best \<le> score (fst (minimaxLoop i b ai hu t al be d best)) \<and>
        failSoft al be (foldr max (childValues i b ai True d) NegInf)
          (score (fst (minimaxLoop i b ai hu t al be d best))))
     \<and> (\<not> t \<longrightarrow> be \<le> score best \<longrightarrow>
        score (fst (minimaxLoop i b ai hu t al be d best)) \<le> score best \<and>
        failSoft al be (foldr min (childValues i b ai False d) PosInf)
          (score (fst (minimaxLoop i b ai hu t al be d best))))"
proof (induct b ai hu t al be d and i b ai hu t al be d best rule: minimax_loop_induct)
  case (Node b ai hu t al be d)
  show ?case
  proof (intro impI)
    assume hu: "hu = other ai" and ab: "al < be"
    show "failSoft al be (fullMinimax b ai t d) (score (fst (minimax b ai hu t al be d)))"
    proof (cases "terminalResult b ai hu d")
      case (Some r)
      with hu have "fullMinimax b ai t d = score r" by (simp add: fullMinimax_terminal)
      with Some show ?thesis by (simp add: minimax.simps[of b] failSoft_refl)
    next
      case None
      with hu have ip: "evaluate b = InProgress" by (simp add: terminalResult_None_InProgress)
      let ?s = "\<lparr>index = Some (- 1), score = (if t then NegInf else PosInf)\<rparr>"
      from Node[OF None] hu ab have q:
        "(t \<longrightarrow> score ?s \<le> al \<longrightarrow>
            failSoft al be (foldr max (childValues 0 b ai True d) NegInf)
              (score (fst (minimaxLoop 0 b ai hu t al be d ?s))))
         \<and> (\<not> t \<longrightarrow> be \<le> score ?s \<longrightarrow>
            failSoft al be (foldr min (childValues 0 b ai False d) PosInf)
              (score (fst (minimaxLoop 0 b ai hu t al be d ?s))))"
        by blast
      have m: "minimax b ai hu t al be d = minimaxLoop 0 b ai hu t al be d ?s"
        using None by (simp add: minimax.simps[of b])
      show ?thesis
      proof (cases t)
        case True
        with q have "failSoft al be (foldr max (childValues 0 b ai True d) NegInf)
              (score (fst (minimaxLoop 0 b ai hu t al be d ?s)))"
          by (simp add: NegInf_least)
        with True ip m show ?thesis by (simp add: fullMinimax_InProgress)
      next
        case False
        with q have "failSoft al be (foldr min (childValues 0 b ai False d) PosInf)
              (score (fst (minimaxLoop 0 b ai hu t al be d ?s)))"
          by (simp add: PosInf_greatest)
        with False ip m show ?thesis by (simp add: fullMinimax_InProgress)
      qed
    qed
  qed
next
  case (LoopExit i b ai hu t al be d best)
  then have r: "minimaxLoop i b ai hu t al be d best = (best, b)" by (rule minimaxLoop_exit)
  from LoopExit have c: "\<And>t. childValues i b ai t d = []" by (rule childValues_exit)
  show ?case
    unfolding r c by (auto simp: failSoft_def NegInf_least PosInf_greatest)
next
  case (LoopSkip i b ai hu t al be d best)
  from LoopSkip(1,2) have r: "minimaxLoop i b ai hu t al be d best
      = minimaxLoop (i + 1) b ai hu t al be d best"
    by (intro minimaxLoop_skip) simp_all
  from LoopSkip(1,2) have c: "\<And>t. childValues i b ai t d = childValues (i + 1) b ai t d"
    by (rule childValues_skip)
  from LoopSkip(3) show ?case unfolding r c .
next
  case (LoopAi i b ai hu al be d best s)
  show ?case
  proof (intro impI conjI)
    assume hu: "hu = other ai" and ab: "al < be" and ba: "score best \<le> al"
    define v where "v = fullMinimax (b[i := Some ai]) ai False (d + 1)"
    define W where "W = foldr max (childValues (i + 1) b ai True d) NegInf"
    define best' where
      "best' = (if s > score best then \<lparr>index = Some (int i), score = s\<rparr> else best)"
    define R' where "R' = score (fst (minimaxLoop (i + 1) b ai hu True (max al s) be d best'))"
    have sb: "score best' = max (score best) s"
      by (auto simp: best'_def max_def)
    from LoopAi(3,4) hu ab have ch: "failSoft al be v s" by (simp add: v_def)
    have rest: "\<not> be \<le> max al s \<Longrightarrow> max (score best) s \<le> R' \<and> failSoft (max al s) be W R'"
    proof -
      assume nc: "\<not> be \<le> max al s"
      then have "max al s < be" by (simp add: not_le)
      moreover from ba have "score best' \<le> max al s"
        unfolding sb by (auto simp: le_max_iff_disj)
      ultimately show ?thesis
        using LoopAi(5)[OF nc] hu unfolding best'_def[symmetric] R'_def[symmetric]
          W_def[symmetric] sb by simp
    qed
    have R: "score (fst (minimaxLoop i b ai hu True al be d best))
        = (if be \<le> max al s then max (score best) s else R')"
      unfolding minimaxLoop_step(1)[OF LoopAi(1,2) refl refl] Let_def LoopAi(4)[symmetric]
        best'_def[symmetric] R'_def sb[symmetric]
      by simp
    have cv: "foldr max (childValues i b ai True d) NegInf = max v W"
      using childValues_step[OF LoopAi(1,2), of ai True d] by (simp add: v_def W_def)
    from failSoft_max_step[OF ab ba ch rest]
    show "score best \<le> score (fst (minimaxLoop i b ai hu True al be d best))"
      and "failSoft al be (foldr max (childValues i b ai True d) NegInf)
        (score (fst (minimaxLoop i b ai hu True al be d best)))"
      unfolding R cv by simp_all
  qed simp_all
next
  case (LoopHu i b ai hu al be d best s)
  show ?case
  proof (intro impI conjI)
    assume hu: "hu = other ai" and ab: "al < be" and ba: "be \<le> score best"
    define v where "v = fullMinimax (b[i := Some (other ai)]) ai True (d + 1)"
    define W where "W = foldr min (childValues (i + 1) b ai False d) PosInf"
    define best' where
      "best' = (if s < score best then \<lparr>index = Some (int i), score = s\<rparr> else best)"
    define R' where "R' = score (fst (minimaxLoop (i + 1) b ai hu False al (min be s) d best'))"
    have sb: "score best' = min (score best) s"
      by (auto simp: best'_def min_def)
    from LoopHu(3,4) hu ab have ch: "failSoft al be v s" by (simp add: v_def)
    have rest: "\<not> min be s \<le> al \<Longrightarrow> R' \<le> min (score best) s \<and> failSoft al (min be s) W R'"
    proof -
      assume nc: "\<not> min be s \<le> al"
      then have "al < min be s" by (simp add: not_le)
      moreover from ba have "min be s \<le> score best'"
        unfolding sb by (auto simp: min_le_iff_disj)
      ultimately show ?thesis
        using LoopHu(5)[OF nc] hu unfolding best'_def[symmetric] R'_def[symmetric]
          W_def[symmetric] sb by simp
    qed
    have R: "score (fst (minimaxLoop i b ai hu False al be d best))
        = (if min be s \<le> al then min (score best) s else R')"
      unfolding minimaxLoop_step(2)[OF LoopHu(1,2) refl refl] Let_def LoopHu(4)[symmetric]
        best'_def[symmetric] R'_def sb[symmetric]
      by simp
    have cv: "foldr min (childValues i b ai False d) PosInf = min v W"
      using childValues_step[OF LoopHu(1,2), of ai False d] by (simp add: v_def W_def)
    from failSoft_min_step[OF ab ba ch rest]
    show "score (fst (minimaxLoop i b ai hu False al be d best)) \<le> score best"
      and "failSoft al be (foldr min (childValues i b ai False d) PosInf)
        (score (fst (minimaxLoop i b ai hu False al be d best)))"
      unfolding R cv by simp_all
  qed simp_all
qed

text \<open>
  Claim C3. For every board, AI mark, side to move and depth, \<open>minimax\<close> called with
  \<open>alpha = -Infinity\<close> and \<open>beta = +Infinity\<close> returns the score of the unpruned
  full-depth minimax with the same terminal scoring: the cuts change which positions
  are visited, never the value returned at the root.
\<close>

theorem C3_pruning_keeps_root_score:
  "score (fst (minimax b aiMark (other aiMark) isAiTurn NegInf PosInf depth))
     = fullMinimax b aiMark isAiTurn depth"
proof -
  have "NegInf < PosInf" by (simp add: less_score_def less_eq_score_def)
  with minimax_failSoft(1)[of "other aiMark" aiMark NegInf PosInf b isAiTurn depth]
  have "failSoft NegInf PosInf (fullMinimax b aiMark isAiTurn depth)
      (score (fst (minimax b aiMark (other aiMark) isAiTurn NegInf PosInf depth)))"
    by simp
  then show ?thesis
    by (rule failSoft_full) (simp_all add: NegInf_least PosInf_greatest)
qed

section \<open>Self-play of the Optimal Strategy\<close>

text \<open>
  Evaluation of \<open>minimax\<close> on a board written as a list of nine cells: one equation
  for each index of the loop and each content of the cell, with the board restored.
\<close>

lemma isNull9:
  "isNull [c0, c1, c2, c3, c4, c5, c6, c7, c8] 0 = (c0 = None)"
  "isNull [c0, c1, c2, c3, c4, c5, c6, c7, c8] 1 = (c1 = None)"
  "isNull [c0, c1, c2, c3, c4, c5, c6, c7, c8] 2 = (c2 = None)"
  "isNull [c0, c1, c2, c3, c4, c5, c6, c7, c8] 3 = (c3 = None)"
  "isNull [c0, c1, c2, c3, c4, c5, c6, c7, c8] 4 = (c4 = None)"
  "isNull [c0, c1, c2, c3, c4, c5, c6, c7, c8] 5 = (c5 = None)"
  "isNull [c0, c1, c2, c3, c4, c5, c6, c7, c8] 6 = (c6 = None)"
  "isNull [c0, c1, c2, c3, c4, c5, c6, c7, c8] 7 = (c7 = None)"
  "isNull [c0, c1, c2, c3, c4, c5, c6, c7, c8] 8 = (c8 = None)"
  by (simp_all add: isNull_def boardGet_def)

lemma update9:
  "[c0, c1, c2, c3, c4, c5, c6, c7, c8][0 := v] = [v, c1, c2, c3, c4, c5, c6, c7, c8]"
  "[c0, c1, c2, c3, c4, c5, c6, c7, c8][1 := v] = [c0, v, c2, c3, c4, c5, c6, c7, c8]"
  "[c0, c1, c2, c3, c4, c5, c6, c7, c8][2 := v] = [c0, c1, v, c3, c4, c5, c6, c7, c8]"
  "[c0, c1, c2, c3, c4, c5, c6, c7, c8][3 := v] = [c0, c1, c2, v, c4, c5, c6, c7, c8]"
  "[c0, c1, c2, c3, c4, c5, c6, c7, c8][4 := v] = [c0, c1, c2, c3, v, c5, c6, c7, c8]"
  "[c0, c1, c2, c3, c4, c5, c6, c7, c8][5 := v] = [c0, c1, c2, c3, c4, v, c6, c7, c8]"
  "[c0, c1, c2, c3, c4, c5, c6, c7, c8][6 := v] = [c0, c1, c2, c3, c4, c5, v, c7, c8]"
  "[c0, c1, c2, c3, c4, c5, c6, c7, c8][7 := v] = [c0, c1, c2, c3, c4, c5, c6, v, c8]"
  "[c0, c1, c2, c3, c4, c5, c6, c7, c8][8 := v] = [c0, c1, c2, c3, c4, c5, c6, c7, v]"
  by (simp_all add: numeral_nat list_update_code)

lemma lineComplete9:
  "lineComplete [c0, c1, c2, c3, c4, c5, c6, c7, c8] (0, 1, 2) =
     (case c0 of Some m \<Rightarrow> if c1 = Some m \<and> c2 = Some m then Some m else None
      | None \<Rightarrow> None)"
  "lineComplete [c0, c1, c2, c3, c4, c5, c6, c7, c8] (3, 4, 5) =
     (case c3 of Some m \<Rightarrow> if c4 = Some m \<and> c5 = Some m then Some m else None
      | None \<Rightarrow> None)"
  "lineComplete [c0, c1, c2, c3, c4, c5, c6, c7, c8] (6, 7, 8) =
     (case c6 of Some m \<Rightarrow> if c7 = Some m \<and> c8 = Some m then Some m else None
      | None \<Rightarrow> None)"
  "lineComplete [c0, c1, c2, c3, c4, c5, c6, c7, c8] (0, 3, 6) =
     (case c0 of Some m \<Rightarrow> if c3 = Some m \<and> c6 = Some m then Some m else None
      | None \<Rightarrow> None)"
  "lineComplete [c0, c1, c2, c3, c4, c5, c6, c7, c8] (1, 4, 7) =
     (case c1 of Some m \<Rightarrow> if c4 = Some m \<and> c7 = Some m then Some m else None
      | None \<Rightarrow> None)"
  "lineComplete [c0, c1, c2, c3, c4, c5, c6, c7, c8] (2, 5, 8) =
     (case c2 of Some m \<Rightarrow> if c5 = Some m \<and> c8 = Some m then Some m else None
      | None \<Rightarrow> None)"
  "lineComplete [c0, c1, c2, c3, c4, c5, c6, c7, c8] (0, 4, 8) =
     (case c0 of Some m \<Rightarrow> if c4 = Some m \<and> c8 = Some m then Some m else None
      | None \<Rightarrow> None)"
  "lineComplete [c0, c1, c2, c3, c4, c5, c6, c7, c8] (2, 4, 6) =
     (case c2 of Some m \<Rightarrow> if c4 = Some m \<and> c6 = Some m then Some m else None
      | None \<Rightarrow> None)"
  by (simp_all add: lineComplete_def boardGet_def split: option.splits)

lemma loop9_skip_0:
  "minimaxLoop 0 [Some m, c1, c2, c3, c4, c5, c6, c7, c8] ai hu t al be d best =
   minimaxLoop 1 [Some m, c1, c2, c3, c4, c5, c6, c7, c8] ai hu t al be d best"
  by (rule minimaxLoop_skip[of "0" "[Some m, c1, c2, c3, c4, c5, c6, c7, c8]" "1" ai hu t al be d best])
     (simp_all add: isNull_def boardGet_def)

lemma loop9_skip_1:
  "minimaxLoop 1 [c0, Some m, c2, c3, c4, c5, c6, c7, c8] ai hu t al be d best =
   minimaxLoop 2 [c0, Some m, c2, c3, c4, c5, c6, c7, c8] ai hu t al be d best"
  by (rule minimaxLoop_skip[of "1" "[c0, Some m, c2, c3, c4, c5, c6, c7, c8]" "2" ai hu t al be d best])
     (simp_all add: isNull_def boardGet_def)

lemma loop9_skip_2:
  "minimaxLoop 2 [c0, c1, Some m, c3, c4, c5, c6, c7, c8] ai hu t al be d best =
   minimaxLoop 3 [c0, c1, Some m, c3, c4, c5, c6, c7, c8] ai hu t al be d best"
  by (rule minimaxLoop_skip[of "2" "[c0, c1, Some m, c3, c4, c5, c6, c7, c8]" "3" ai hu t al be d best])
     (simp_all add: isNull_def boardGet_def)

lemma loop9_skip_3:
  "minimaxLoop 3 [c0, c1, c2, Some m, c4, c5, c6, c7, c8] ai hu t al be d best =
   minimaxLoop 4 [c0, c1, c2, Some m, c4, c5, c6, c7, c8] ai hu t al be d best"
  by (rule minimaxLoop_skip[of "3" "[c0, c1, c2, Some m, c4, c5, c6, c7, c8]" "4" ai hu t al be d best])
     (simp_all add: isNull_def boardGet_def)

lemma loop9_skip_4:
  "minimaxLoop 4 [c0, c1, c2, c3, Some m, c5, c6, c7, c8] ai hu t al be d best =
   minimaxLoop 5 [c0, c1, c2, c3, Some m, c5, c6, c7, c8] ai hu t al be d best"
  by (rule minimaxLoop_skip[of "4" "[c0, c1, c2, c3, Some m, c5, c6, c7, c8]" "5" ai hu t al be d best])
     (simp_all add: isNull_def boardGet_def)

lemma loop9_skip_5:
  "minimaxLoop 5 [c0, c1, c2, c3, c4, Some m, c6, c7, c8] ai hu t al be d best =
   minimaxLoop 6 [c0, c1, c2, c3, c4, Some m, c6, c7, c8] ai hu t al be d best"
  by (rule minimaxLoop_skip[of "5" "[c0, c1, c2, c3, c4, Some m, c6, c7, c8]" "6" ai hu t al be d best])
     (simp_all add: isNull_def boardGet_def)

lemma loop9_skip_6:
  "minimaxLoop 6 [c0, c1, c2, c3, c4, c5, Some m, c7, c8] ai hu t al be d best =
   minimaxLoop 7 [c0, c1, c2, c3, c4, c5, Some m, c7, c8] ai hu t al be d best"
  by (rule minimaxLoop_skip[of "6" "[c0, c1, c2, c3, c4, c5, Some m, c7, c8]" "7" ai hu t al be d best])
     (simp_all add: isNull_def boardGet_def)

lemma loop9_skip_7:
  "minimaxLoop 7 [c0, c1, c2, c3, c4, c5, c6, Some m, c8] ai hu t al be d best =
   minimaxLoop 8 [c0, c1, c2, c3, c4, c5, c6, Some m, c8] ai hu t al be d best"
  by (rule minimaxLoop_skip[of "7" "[c0, c1, c2, c3, c4, c5, c6, Some m, c8]" "8" ai hu t al be d best])
     (simp_all add: isNull_def boardGet_def)

lemma loop9_skip_8:
  "minimaxLoop 8 [c0, c1, c2, c3, c4, c5, c6, c7, Some m] ai hu t al be d best =
   minimaxLoop 9 [c0, c1, c2, c3, c4, c5, c6, c7, Some m] ai hu t al be d best"
  by (rule minimaxLoop_skip[of "8" "[c0, c1, c2, c3, c4, c5, c6, c7, Some m]" "9" ai hu t al be d best])
     (simp_all add: isNull_def boardGet_def)

lemma loop9_ai_0:
  "minimaxLoop 0 [None, c1, c2, c3, c4, c5, c6, c7, c8] ai hu True al be d best =
     (let s = score (fst (minimax [Some ai, c1, c2, c3, c4, c5, c6, c7, c8] ai hu False al be (d + 1)))
      in if be \<le> max al s
         then (if s > score best then \<lparr>index = Some 0, score = s\<rparr> else best,
               [None, c1, c2, c3, c4, c5, c6, c7, c8])
         else minimaxLoop 1 [None, c1, c2, c3, c4, c5, c6, c7, c8] ai hu True (max al s) be d
                (if s > score best then \<lparr>index = Some 0, score = s\<rparr> else best))"
  by (rule minimaxLoop_step(1)[of "0" "[None, c1, c2, c3, c4, c5, c6, c7, c8]" "1" "0" ai hu al be d best, unfolded update9])
     (simp_all add: isNull_def boardGet_def)

lemma loop9_ai_1:
  "minimaxLoop 1 [c0, None, c2, c3, c4, c5, c6, c7, c8] ai hu True al be d best =
     (let s = score (fst (minimax [c0, Some ai, c2, c3, c4, c5, c6, c7, c8] ai hu False al be (d + 1)))
      in if be \<le> max al s
         then (if s > score best then \<lparr>index = Some 1, score = s\<rparr> else best,
               [c0, None, c2, c3, c4, c5, c6, c7, c8])
         else minimaxLoop 2 [c0, None, c2, c3, c4, c5, c6, c7, c8] ai hu True (max al s) be d
                (if s > score best then \<lparr>index = Some 1, score = s\<rparr> else best))"
  by (rule minimaxLoop_step(1)[of "1" "[c0, None, c2, c3, c4, c5, c6, c7, c8]" "2" "1" ai hu al be d best, unfolded update9])
     (simp_all add: isNull_def boardGet_def)

lemma loop9_ai_2:
  "minimaxLoop 2 [c0, c1, None, c3, c4, c5, c6, c7, c8] ai hu True al be d best =
     (let s = score (fst (minimax [c0, c1, Some ai, c3, c4, c5, c6, c7, c8] ai hu False al be (d + 1)))
      in if be \<le> max al s
         then (if s > score best then \<lparr>index = Some 2, score = s\<rparr> else best,
               [c0, c1, None, c3, c4, c5, c6, c7, c8])
         else minimaxLoop 3 [c0, c1, None, c3, c4, c5, c6, c7, c8] ai hu True (max al s) be d
                (if s > score best then \<lparr>index = Some 2, score = s\<rparr> else best))"
  by (rule minimaxLoop_step(1)[of "2" "[c0, c1, None, c3, c4, c5, c6, c7, c8]" "3" "2" ai hu al be d best, unfolded update9])
     (simp_all add: isNull_def boardGet_def)

lemma loop9_ai_3:
  "minimaxLoop 3 [c0, c1, c2, None, c4, c5, c6, c7, c8] ai hu True al be d best =
     (let s = score (fst (minimax [c0, c1, c2, Some ai, c4, c5, c6, c7, c8] ai hu False al be (d + 1)))
      in if be \<le> max al s
         then (if s > score best then \<lparr>index = Some 3, score = s\<rparr> else best,
               [c0, c1, c2, None, c4, c5, c6, c7, c8])
         else minimaxLoop 4 [c0, c1, c2, None, c4, c5, c6, c7, c8] ai hu True (max al s) be d
                (if s > score best then \<lparr>index = Some 3, score = s\<rparr> else best))"
  by (rule minimaxLoop_step(1)[of "3" "[c0, c1, c2, None, c4, c5, c6, c7, c8]" "4" "3" ai hu al be d best, unfolded update9])
     (simp_all add: isNull_def boardGet_def)

lemma loop9_ai_4:
  "minimaxLoop 4 [c0, c1, c2, c3, None, c5, c6, c7, c8] ai hu True al be d best =
     (let s = score (fst (minimax [c0, c1, c2, c3, Some ai, c5, c6, c7, c8] ai hu False al be (d + 1)))
      in if be \<le> max al s
         then (if s > score best then \<lparr>index = Some 4, score = s\<rparr> else best,
               [c0, c1, c2, c3, None, c5, c6, c7, c8])
         else minimaxLoop 5 [c0, c1, c2, c3, None, c5, c6, c7, c8] ai hu True (max al s) be d
                (if s > score best then \<lparr>index = Some 4, score = s\<rparr> else best))"
  by (rule minimaxLoop_step(1)[of "4" "[c0, c1, c2, c3, None, c5, c6, c7, c8]" "5" "4" ai hu al be d best, unfolded update9])
     (simp_all add: isNull_def boardGet_def)

lemma loop9_ai_5:
  "minimaxLoop 5 [c0, c1, c2, c3, c4, None, c6, c7, c8] ai hu True al be d best =
     (let s = score (fst (minimax [c0, c1, c2, c3, c4, Some ai, c6, c7, c8] ai hu False al be (d + 1)))
      in if be \<le> max al s
         then (if s > score best then \<lparr>index = Some 5, score = s\<rparr> else best,
               [c0, c1, c2, c3, c4, None, c6, c7, c8])
         else minimaxLoop 6 [c0, c1, c2, c3, c4, None, c6, c7, c8] ai hu True (max al s) be d
                (if s > score best then \<lparr>index = Some 5, score = s\<rparr> else best))"
  by (rule minimaxLoop_step(1)[of "5" "[c0, c1, c2, c3, c4, None, c6, c7, c8]" "6" "5" ai hu al be d best, unfolded update9])
     (simp_all add: isNull_def boardGet_def)

lemma loop9_ai_6:
  "minimaxLoop 6 [c0, c1, c2, c3, c4, c5, None, c7, c8] ai hu True al be d best =
     (let s = score (fst (minimax [c0, c1, c2, c3, c4, c5, Some ai, c7, c8] ai hu False al be (d + 1)))
      in if be \<le> max al s
         then (if s > score best then \<lparr>index = Some 6, score = s\<rparr> else best,
               [c0, c1, c2, c3, c4, c5, None, c7, c8])
         else minimaxLoop 7 [c0, c1, c2, c3, c4, c5, None, c7, c8] ai hu True (max al s) be d
                (if s > score best then \<lparr>index = Some 6, score = s\<rparr> else best))"
  by (rule minimaxLoop_step(1)[of "6" "[c0, c1, c2, c3, c4, c5, None, c7, c8]" "7" "6" ai hu al be d best, unfolded update9])
     (simp_all add: isNull_def boardGet_def)

lemma loop9_ai_7:
  "minimaxLoop 7 [c0, c1, c2, c3, c4, c5, c6, None, c8] ai hu True al be d best =
     (let s = score (fst (minimax [c0, c1, c2, c3, c4, c5, c6, Some ai, c8] ai hu False al be (d + 1)))
      in if be \<le> max al s
         then (if s > score best then \<lparr>index = Some 7, score = s\<rparr> else best,
               [c0, c1, c2, c3, c4, c5, c6, None, c8])
         else minimaxLoop 8 [c0, c1, c2, c3, c4, c5, c6, None, c8] ai hu True (max al s) be d
                (if s > score best then \<lparr>index = Some 7, score = s\<rparr> else best))"
  by (rule minimaxLoop_step(1)[of "7" "[c0, c1, c2, c3, c4, c5, c6, None, c8]" "8" "7" ai hu al be d best, unfolded update9])
     (simp_all add: isNull_def boardGet_def)

lemma loop9_ai_8:
  "minimaxLoop 8 [c0, c1, c2, c3, c4, c5, c6, c7, None] ai hu True al be d best =
     (let s = score (fst (minimax [c0, c1, c2, c3, c4, c5, c6, c7, Some ai] ai hu False al be (d + 1)))
      in if be \<le> max al s
         then (if s > score best then \<lparr>index = Some 8, score = s\<rparr> else best,
               [c0, c1, c2, c3, c4, c5, c6, c7, None])
         else minimaxLoop 9 [c0, c1, c2, c3, c4, c5, c6, c7, None] ai hu True (max al s) be d
                (if s > score best then \<lparr>index = Some 8, score = s\<rparr> else best))"
  by (rule minimaxLoop_step(1)[of "8" "[c0, c1, c2, c3, c4, c5, c6, c7, None]" "9" "8" ai hu al be d best, unfolded update9])
     (simp_all add: isNull_def boardGet_def)

lemma loop9_hu_0:
  "minimaxLoop 0 [None, c1, c2, c3, c4, c5, c6, c7, c8] ai hu False al be d best =
     (let s = score (fst (minimax [Some hu, c1, c2, c3, c4, c5, c6, c7, c8] ai hu True al be (d + 1)))
      in if min be s \<le> al
         then (if s < score best then \<lparr>index = Some 0, score = s\<rparr> else best,
               [None, c1, c2, c3, c4, c5, c6, c7, c8])
         else minimaxLoop 1 [None, c1, c2, c3, c4, c5, c6, c7, c8] ai hu False al (min be s) d
                (if s < score best then \<lparr>index = Some 0, score = s\<rparr> else best))"
  by (rule minimaxLoop_step(2)[of "0" "[None, c1, c2, c3, c4, c5, c6, c7, c8]" "1" "0" ai hu al be d best, unfolded update9])
     (simp_all add: isNull_def boardGet_def)

lemma loop9_hu_1:
  "minimaxLoop 1 [c0, None, c2, c3, c4, c5, c6, c7, c8] ai hu False al be d best =
     (let s = score (fst (minimax [c0, Some hu, c2, c3, c4, c5, c6, c7, c8] ai hu True al be (d + 1)))
      in if min be s \<le> al
         then (if s < score best then \<lparr>index = Some 1, score = s\<rparr> else best,
               [c0, None, c2, c3, c4, c5, c6, c7, c8])
         else minimaxLoop 2 [c0, None, c2, c3, c4, c5, c6, c7, c8] ai hu False al (min be s) d
                (if s < score best then \<lparr>index = Some 1, score = s\<rparr> else best))"
  by (rule minimaxLoop_step(2)[of "1" "[c0, None, c2, c3, c4, c5, c6, c7, c8]" "2" "1" ai hu al be d best, unfolded update9])
     (simp_all add: isNull_def boardGet_def)

lemma loop9_hu_2:
  "minimaxLoop 2 [c0, c1, None, c3, c4, c5, c6, c7, c8] ai hu False al be d best =
     (let s = score (fst (minimax [c0, c1, Some hu, c3, c4, c5, c6, c7, c8] ai hu True al be (d + 1)))
      in if min be s \<le> al
         then (if s < score best then \<lparr>index = Some 2, score = s\<rparr> else best,
               [c0, c1, None, c3, c4, c5, c6, c7, c8])
         else minimaxLoop 3 [c0, c1, None, c3, c4, c5, c6, c7, c8] ai hu False al (min be s) d
                (if s < score best then \<lparr>index = Some 2, score = s\<rparr> else best))"
  by (rule minimaxLoop_step(2)[of "2" "[c0, c1, None, c3, c4, c5, c6, c7, c8]" "3" "2" ai hu al be d best, unfolded update9])
     (simp_all add: isNull_def boardGet_def)

lemma loop9_hu_3:
  "minimaxLoop 3 [c0, c1, c2, None, c4, c5, c6, c7, c8] ai hu False al be d best =
     (let s = score (fst (minimax [c0, c1, c2, Some hu, c4, c5, c6, c7, c8] ai hu True al be (d + 1)))
      in if min be s \<le> al
         then (if s < score best then \<lparr>index = Some 3, score = s\<rparr> else best,
               [c0, c1, c2, None, c4, c5, c6, c7, c8])
         else minimaxLoop 4 [c0, c1, c2, None, c4, c5, c6, c7, c8] ai hu False al (min be s) d
                (if s < score best then \<lparr>index = Some 3, score = s\<rparr> else best))"
  by (rule minimaxLoop_step(2)[of "3" "[c0, c1, c2, None, c4, c5, c6, c7, c8]" "4" "3" ai hu al be d best, unfolded update9])
     (simp_all add: isNull_def boardGet_def)

lemma loop9_hu_4:
  "minimaxLoop 4 [c0, c1, c2, c3, None, c5, c6, c7, c8] ai hu False al be d best =
     (let s = score (fst (minimax [c0, c1, c2, c3, Some hu, c5, c6, c7, c8] ai hu True al be (d + 1)))
      in if min be s \<le> al
         then (if s < score best then \<lparr>index = Some 4, score = s\<rparr> else best,
               [c0, c1, c2, c3, None, c5, c6, c7, c8])
         else minimaxLoop 5 [c0, c1, c2, c3, None, c5, c6, c7, c8] ai hu False al (min be s) d
                (if s < score best then \<lparr>index = Some 4, score = s\<rparr> else best))"
  by (rule minimaxLoop_step(2)[of "4" "[c0, c1, c2, c3, None, c5, c6, c7, c8]" "5" "4" ai hu al be d best, unfolded update9])
     (simp_all add: isNull_def boardGet_def)

lemma loop9_hu_5:
  "minimaxLoop 5 [c0, c1, c2, c3, c4, None, c6, c7, c8] ai hu False al be d best =
     (let s = score (fst (minimax [c0, c1, c2, c3, c4, Some hu, c6, c7, c8] ai hu True al be (d + 1)))
      in if min be s \<le> al
         then (if s < score best then \<lparr>index = Some 5, score = s\<rparr> else best,
               [c0, c1, c2, c3, c4, None, c6, c7, c8])
         else minimaxLoop 6 [c0, c1, c2, c3, c4, None, c6, c7, c8] ai hu False al (min be s) d
                (if s < score best then \<lparr>index = Some 5, score = s\<rparr> else best))"
  by (rule minimaxLoop_step(2)[of "5" "[c0, c1, c2, c3, c4, None, c6, c7, c8]" "6" "5" ai hu al be d best, unfolded update9])
     (simp_all add: isNull_def boardGet_def)

lemma loop9_hu_6:
  "minimaxLoop 6 [c0, c1, c2, c3, c4, c5, None, c7, c8] ai hu False al be d best =
     (let s = score (fst (minimax [c0, c1, c2, c3, c4, c5, Some hu, c7, c8] ai hu True al be (d + 1)))
      in if min be s \<le> al
         then (if s < score best then \<lparr>index = Some 6, score = s\<rparr> else best,
               [c0, c1, c2, c3, c4, c5, None, c7, c8])
         else minimaxLoop 7 [c0, c1, c2, c3, c4, c5, None, c7, c8] ai hu False al (min be s) d
                (if s < score best then \<lparr>index = Some 6, score = s\<rparr> else best))"
  by (rule minimaxLoop_step(2)[of "6" "[c0, c1, c2, c3, c4, c5, None, c7, c8]" "7" "6" ai hu al be d best, unfolded update9])
     (simp_all add: isNull_def boardGet_def)

lemma loop9_hu_7:
  "minimaxLoop 7 [c0, c1, c2, c3, c4, c5, c6, None, c8] ai hu False al be d best =
     (let s = score (fst (minimax [c0, c1, c2, c3, c4, c5, c6, Some hu, c8] ai hu True al be (d + 1)))
      in if min be s \<le> al
         then (if s < score best then \<lparr>index = Some 7, score = s\<rparr> else best,
               [c0, c1, c2, c3, c4, c5, c6, None, c8])
         else minimaxLoop 8 [c0, c1, c2, c3, c4, c5, c6, None, c8] ai hu False al (min be s) d
                (if s < score best then \<lparr>index = Some 7, score = s\<rparr> else best))"
  by (rule minimaxLoop_step(2)[of "7" "[c0, c1, c2, c3, c4, c5, c6, None, c8]" "8" "7" ai hu al be d best, unfolded update9])
     (simp_all add: isNull_def boardGet_def)

lemma loop9_hu_8:
  "minimaxLoop 8 [c0, c1, c2, c3, c4, c5, c6, c7, None] ai hu False al be d best =
     (let s = score (fst (minimax [c0, c1, c2, c3, c4, c5, c6, c7, Some hu] ai hu True al be (d + 1)))
      in if min be s \<le> al
         then (if s < score best then \<lparr>index = Some 8, score = s\<rparr> else best,
               [c0, c1, c2, c3, c4, c5, c6, c7, None])
         else minimaxLoop 9 [c0, c1, c2, c3, c4, c5, c6, c7, None] ai hu False al (min be s) d
                (if s < score best then \<lparr>index = Some 8, score = s\<rparr> else best))"
  by (rule minimaxLoop_step(2)[of "8" "[c0, c1, c2, c3, c4, c5, c6, c7, None]" "9" "8" ai hu al be d best, unfolded update9])
     (simp_all add: isNull_def boardGet_def)

lemmas loop9_skip = loop9_skip_0 loop9_skip_1 loop9_skip_2 loop9_skip_3 loop9_skip_4 loop9_skip_5 loop9_skip_6 loop9_skip_7 loop9_skip_8

lemmas loop9_ai = loop9_ai_0 loop9_ai_1 loop9_ai_2 loop9_ai_3 loop9_ai_4 loop9_ai_5 loop9_ai_6 loop9_ai_7 loop9_ai_8

lemmas loop9_hu = loop9_hu_0 loop9_hu_1 loop9_hu_2 loop9_hu_3 loop9_hu_4 loop9_hu_5 loop9_hu_6 loop9_hu_7 loop9_hu_8

lemma loop9_exit: "minimaxLoop 9 b ai hu t al be d best = (best, b)"
  by (rule minimaxLoop_exit) simp

lemma terminalResult_once:
  "terminalResult b ai hu depth =
     (case checkWin b of
        Some w \<Rightarrow>
          if winner w = ai then Some \<lparr>index = None, score = Fin (100 - depth)\<rparr>
          else if winner w = hu then Some \<lparr>index = None, score = Fin (- 100 + depth)\<rparr>
          else None
      | None \<Rightarrow>
          if list_all (\<lambda>c. c \<noteq> None) b then Some \<lparr>index = None, score = Fin 0\<rparr> else None)"
  by (simp add: terminalResult_def isDraw_def split: option.splits)

lemma score_cmp:
  "(NegInf \<le> s) = True" "(s \<le> PosInf) = True"
  "(Fin x \<le> Fin y) = (x \<le> y)" "(Fin x \<le> NegInf) = False" "(PosInf \<le> Fin y) = False"
  "(PosInf \<le> NegInf) = False"
  "(s < NegInf) = False" "(PosInf < s) = False"
  "(Fin x < Fin y) = (x < y)" "(NegInf < Fin y) = True" "(Fin x < PosInf) = True"
  "(NegInf < PosInf) = True"
  by (cases s; auto simp: less_eq_score_def less_score_def)+

lemmas minimax9 = lineComplete9 loop9_skip loop9_ai loop9_hu loop9_exit terminalResult_once
  score_cmp checkWin_def WINNING_LINES_def minimax.simps max_def min_def Let_def
  scanLines.simps option.case if_True if_False simp_thms mark.distinct option.distinct
  option.inject win.simps mmres.simps fst_conv snd_conv list.pred_inject prod.case
  arith_simps rel_simps
  diff_numeral_special add_neg_numeral_special numeral_plus_one one_plus_numeral one_add_one
  add_0 add_0_right diff_0_right Num.add_num_simps Num.BitM.simps Num.sub_num_simps

lemma selfPlay_move:
  assumes "n' = Suc n" "evaluate b = InProgress"
    and "minimax b m hu True NegInf PosInf 0 = (\<lparr>index = Some ki, score = s\<rparr>, b)"
    and "hu = other m" "ki = int k" "\<not> list_all (\<lambda>c. c = None) b" "isNull b k"
    and "b' = b[k := Some m]" "m' = other m"
  shows "selfPlay n' b m u = selfPlay n b' m' u"
proof -
  have "aiMinimaxMove b m u = Some (int k)"
    using assms(3-6) by (simp add: aiMinimaxMove_def other_def Let_def)
  moreover have "idxIsNull b (Some (int k))"
    using assms(7) by (simp add: idxIsNull_def)
  ultimately show ?thesis
    using assms(1,2,8,9) by (simp add: Let_def)
qed

lemma gameX0_move1:
  "minimax [Some MarkX, None, None, None, None, None, None, None, None]
     MarkO MarkX True NegInf PosInf 0 =
   (\<lparr>index = Some 4, score = Fin 0\<rparr>,
    [Some MarkX, None, None, None, None, None, None, None, None])"
  by (simp only: minimax9 cong: if_weak_cong option.case_cong_weak)

lemma gameX0_move2:
  "minimax [Some MarkX, None, None, None, Some MarkO, None, None, None, None]
     MarkX MarkO True NegInf PosInf 0 =
   (\<lparr>index = Some 1, score = Fin 0\<rparr>,
    [Some MarkX, None, None, None, Some MarkO, None, None, None, None])"
  by (simp only: minimax9 cong: if_weak_cong option.case_cong_weak)

lemma gameX0_move3:
  "minimax [Some MarkX, Some MarkX, None, None, Some MarkO, None, None, None, None]
     MarkO MarkX True NegInf PosInf 0 =
   (\<lparr>index = Some 2, score = Fin 0\<rparr>,
    [Some MarkX, Some MarkX, None, None, Some MarkO, None, None, None, None])"
  by (simp only: minimax9 cong: if_weak_cong option.case_cong_weak)

lemma gameX0_move4:
  "minimax [Some MarkX, Some MarkX, Some MarkO, None, Some MarkO, None, None, None, None]
     MarkX MarkO True NegInf PosInf 0 =
   (\<lparr>index = Some 6, score = Fin 0\<rparr>,
    [Some MarkX, Some MarkX, Some MarkO, None, Some MarkO, None, None, None, None])"
  by (simp only: minimax9 cong: if_weak_cong option.case_cong_weak)

lemma gameX0_move5:
  "minimax [Some MarkX, Some MarkX, Some MarkO, None, Some MarkO, None, Some MarkX, None, None]
     MarkO MarkX True NegInf PosInf 0 =
   (\<lparr>index = Some 3, score = Fin 0\<rparr>,
    [Some MarkX, Some MarkX, Some MarkO, None, Some MarkO, None, Some MarkX, None, None])"
  by (simp only: minimax9 cong: if_weak_cong option.case_cong_weak)

lemma gameX0_move6:
  "minimax [Some MarkX, Some MarkX, Some MarkO, Some MarkO, Some MarkO, None, Some MarkX, None, None]
     MarkX MarkO True NegInf PosInf 0 =
   (\<lparr>index = Some 5, score = Fin 0\<rparr>,
    [Some MarkX, Some MarkX, Some MarkO, Some MarkO, Some MarkO, None, Some MarkX, None, None])"
  by (simp only: minimax9 cong: if_weak_cong option.case_cong_weak)

lemma gameX0_move7:
  "minimax [Some MarkX, Some MarkX, Some MarkO, Some MarkO, Some MarkO, Some MarkX, Some MarkX, None, None]
     MarkO MarkX True NegInf PosInf 0 =
   (\<lparr>index = Some 7, score = Fin 0\<rparr>,
    [Some MarkX, Some MarkX, Some MarkO, Some MarkO, Some MarkO, Some MarkX, Some MarkX, None, None])"
  by (simp only: minimax9 cong: if_weak_cong option.case_cong_weak)

lemma gameX0_move8:
  "minimax [Some MarkX, Some MarkX, Some MarkO, Some MarkO, Some MarkO, Some MarkX, Some MarkX, Some MarkO, None]
     MarkX MarkO True NegInf PosInf 0 =
   (\<lparr>index = Some 8, score = Fin 0\<rparr>,
    [Some MarkX, Some MarkX, Some MarkO, Some MarkO, Some MarkO, Some MarkX, Some MarkX, Some MarkO, None])"
  by (simp only: minimax9 cong: if_weak_cong option.case_cong_weak)

lemma gameX0:
  "selfPlay 8 [Some MarkX, None, None, None, None, None, None, None, None] MarkO u =
   [Some MarkX, Some MarkX, Some MarkO, Some MarkO, Some MarkO, Some MarkX, Some MarkX, Some MarkO, Some MarkX]"
proof -
  have s1: "selfPlay 8 [Some MarkX, None, None, None, None, None, None, None, None] MarkO u =
      selfPlay 7 [Some MarkX, None, None, None, Some MarkO, None, None, None, None] MarkX u"
    by (rule selfPlay_move[where k = 4, OF _ _ gameX0_move1])
       (simp_all add: evaluate_def checkWin_def WINNING_LINES_def lineComplete_def boardGet_def
          isDraw_def isNull_def other_def numeral_nat)
  have s2: "selfPlay 7 [Some MarkX, None, None, None, Some MarkO, None, None, None, None] MarkX u =
      selfPlay 6 [Some MarkX, Some MarkX, None, None, Some MarkO, None, None, None, None] MarkO u"
    by (rule selfPlay_move[where k = 1, OF _ _ gameX0_move2])
       (simp_all add: evaluate_def checkWin_def WINNING_LINES_def lineComplete_def boardGet_def
          isDraw_def isNull_def other_def numeral_nat)
  have s3: "selfPlay 6 [Some MarkX, Some MarkX, None, None, Some MarkO, None, None, None, None] MarkO u =
      selfPlay 5 [Some MarkX, Some MarkX, Some MarkO, None, Some MarkO, None, None, None, None] MarkX u"
    by (rule selfPlay_move[where k = 2, OF _ _ gameX0_move3])
       (simp_all add: evaluate_def checkWin_def WINNING_LINES_def lineComplete_def boardGet_def
          isDraw_def isNull_def other_def numeral_nat)
  have s4: "selfPlay 5 [Some MarkX, Some MarkX, Some MarkO, None, Some MarkO, None, None, None, None] MarkX u =
      selfPlay 4 [Some MarkX, Some MarkX, Some MarkO, None, Some MarkO, None, Some MarkX, None, None] MarkO u"
    by (rule selfPlay_move[where k = 6, OF _ _ gameX0_move4])
       (simp_all add: evaluate_def checkWin_def WINNING_LINES_def lineComplete_def boardGet_def
          isDraw_def isNull_def other_def numeral_nat)
  have s5: "selfPlay 4 [Some MarkX, Some MarkX, Some MarkO, None, Some MarkO, None, Some MarkX, None, None] MarkO u =
      selfPlay 3 [Some MarkX, Some MarkX, Some MarkO, Some MarkO, Some MarkO, None, Some MarkX, None, None] MarkX u"
    by (rule selfPlay_move[where k = 3, OF _ _ gameX0_move5])
       (simp_all add: evaluate_def checkWin_def WINNING_LINES_def lineComplete_def boardGet_def
          isDraw_def isNull_def other_def numeral_nat)
  have s6: "selfPlay 3 [Some MarkX, Some MarkX, Some MarkO, Some MarkO, Some MarkO, None, Some MarkX, None, None] MarkX u =
      selfPlay 2 [Some MarkX, Some MarkX, Some MarkO, Some MarkO, Some MarkO, Some MarkX, Some MarkX, None, None] MarkO u"
    by (rule selfPlay_move[where k = 5, OF _ _ gameX0_move6])
       (simp_all add: evaluate_def checkWin_def WINNING_LINES_def lineComplete_def boardGet_def
          isDraw_def isNull_def other_def numeral_nat)
  have s7: "selfPlay 2 [Some MarkX, Some MarkX, Some MarkO, Some MarkO, Some MarkO, Some MarkX, Some MarkX, None, None] MarkO u =
      selfPlay 1 [Some MarkX, Some MarkX, Some MarkO, Some MarkO, Some MarkO, Some MarkX, Some MarkX, Some MarkO, None] MarkX u"
    by (rule selfPlay_move[where k = 7, OF _ _ gameX0_move7])
       (simp_all add: evaluate_def checkWin_def WINNING_LINES_def lineComplete_def boardGet_def
          isDraw_def isNull_def other_def numeral_nat)
  have s8: "selfPlay 1 [Some MarkX, Some MarkX, Some MarkO, Some MarkO, Some MarkO, Some MarkX, Some MarkX, Some MarkO, None] MarkX u =
      selfPlay 0 [Some MarkX, Some MarkX, Some MarkO, Some MarkO, Some MarkO, Some MarkX, Some MarkX, Some MarkO, Some MarkX] MarkO u"
    by (rule selfPlay_move[where k = 8, OF _ _ gameX0_move8])
       (simp_all add: evaluate_def checkWin_def WINNING_LINES_def lineComplete_def boardGet_def
          isDraw_def isNull_def other_def numeral_nat)
  show ?thesis
    unfolding s1 s2 s3 s4 s5 s6 s7 s8 by simp
qed

lemma gameX2_move1:
  "minimax [None, None, Some MarkX, None, None, None, None, None, None]
     MarkO MarkX True NegInf PosInf 0 =
   (\<lparr>index = Some 4, score = Fin 0\<rparr>,
    [None, None, Some MarkX, None, None, None, None, None, None])"
  by (simp only: minimax9 cong: if_weak_cong option.case_cong_weak)

lemma gameX2_move2:
  "minimax [None, None, Some MarkX, None, Some MarkO, None, None, None, None]
     MarkX MarkO True NegInf PosInf 0 =
   (\<lparr>index = Some 0, score = Fin 0\<rparr>,
    [None, None, Some MarkX, None, Some MarkO, None, None, None, None])"
  by (simp only: minimax9 cong: if_weak_cong option.case_cong_weak)

lemma gameX2_move3:
  "minimax [Some MarkX, None, Some MarkX, None, Some MarkO, None, None, None, None]
     MarkO MarkX True NegInf PosInf 0 =
   (\<lparr>index = Some 1, score = Fin 0\<rparr>,
    [Some MarkX, None, Some MarkX, None, Some MarkO, None, None, None, None])"
  by (simp only: minimax9 cong: if_weak_cong option.case_cong_weak)

lemma gameX2_move4:
  "minimax [Some MarkX, Some MarkO, Some MarkX, None, Some MarkO, None, None, None, None]
     MarkX MarkO True NegInf PosInf 0 =
   (\<lparr>index = Some 7, score = Fin 0\<rparr>,
    [Some MarkX, Some MarkO, Some MarkX, None, Some MarkO, None, None, None, None])"
  by (simp only: minimax9 cong: if_weak_cong option.case_cong_weak)

lemma gameX2_move5:
  "minimax [Some MarkX, Some MarkO, Some MarkX, None, Some MarkO, None, None, Some MarkX, None]
     MarkO MarkX True NegInf PosInf 0 =
   (\<lparr>index = Some 3, score = Fin 0\<rparr>,
    [Some MarkX, Some MarkO, Some MarkX, None, Some MarkO, None, None, Some MarkX, None])"
  by (simp only: minimax9 cong: if_weak_cong option.case_cong_weak)

lemma gameX2_move6:
  "minimax [Some MarkX, Some MarkO, Some MarkX, Some MarkO, Some MarkO, None, None, Some MarkX, None]
     MarkX MarkO True NegInf PosInf 0 =
   (\<lparr>index = Some 5, score = Fin 0\<rparr>,
    [Some MarkX, Some MarkO, Some MarkX, Some MarkO, Some MarkO, None, None, Some MarkX, None])"
  by (simp only: minimax9 cong: if_weak_cong option.case_cong_weak)

lemma gameX2_move7:
  "minimax [Some MarkX, Some MarkO, Some MarkX, Some MarkO, Some MarkO, Some MarkX, None, Some MarkX, None]
     MarkO MarkX True NegInf PosInf 0 =
   (\<lparr>index = Some 8, score = Fin 0\<rparr>,
    [Some MarkX, Some MarkO, Some MarkX, Some MarkO, Some MarkO, Some MarkX, None, Some MarkX, None])"
  by (simp only: minimax9 cong: if_weak_cong option.case_cong_weak)

lemma gameX2_move8:
  "minimax [Some MarkX, Some MarkO, Some MarkX, Some MarkO, Some MarkO, Some MarkX, None, Some MarkX, Some MarkO]
     MarkX MarkO True NegInf PosInf 0 =
   (\<lparr>index = Some 6, score = Fin 0\<rparr>,
    [Some MarkX, Some MarkO, Some MarkX, Some MarkO, Some MarkO, Some MarkX, None, Some MarkX, Some MarkO])"
  by (simp only: minimax9 cong: if_weak_cong option.case_cong_weak)

lemma gameX2:
  "selfPlay 8 [None, None, Some MarkX, None, None, None, None, None, None] MarkO u =
   [Some MarkX, Some MarkO, Some MarkX, Some MarkO, Some MarkO, Some MarkX, Some MarkX, Some MarkX, Some MarkO]"
proof -
  have s1: "selfPlay 8 [None, None, Some MarkX, None, None, None, None, None, None] MarkO u =
      selfPlay 7 [None, None, Some MarkX, None, Some MarkO, None, None, None, None] MarkX u"
    by (rule selfPlay_move[where k = 4, OF _ _ gameX2_move1])
       (simp_all add: evaluate_def checkWin_def WINNING_LINES_def lineComplete_def boardGet_def
          isDraw_def isNull_def other_def numeral_nat)
  have s2: "selfPlay 7 [None, None, Some MarkX, None, Some MarkO, None, None, None, None] MarkX u =
      selfPlay 6 [Some MarkX, None, Some MarkX, None, Some MarkO, None, None, None, None] MarkO u"
    by (rule selfPlay_move[where k = 0, OF _ _ gameX2_move2])
       (simp_all add: evaluate_def checkWin_def WINNING_LINES_def lineComplete_def boardGet_def
          isDraw_def isNull_def other_def numeral_nat)
  have s3: "selfPlay 6 [Some MarkX, None, Some MarkX, None, Some MarkO, None, None, None, None] MarkO u =
      selfPlay 5 [Some MarkX, Some MarkO, Some MarkX, None, Some MarkO, None, None, None, None] MarkX u"
    by (rule selfPlay_move[where k = 1, OF _ _ gameX2_move3])
       (simp_all add: evaluate_def checkWin_def WINNING_LINES_def lineComplete_def boardGet_def
          isDraw_def isNull_def other_def numeral_nat)
  have s4: "selfPlay 5 [Some MarkX, Some MarkO, Some MarkX, None, Some MarkO, None, None, None, None] MarkX u =
      selfPlay 4 [Some MarkX, Some MarkO, Some MarkX, None, Some MarkO, None, None, Some MarkX, None] MarkO u"
    by (rule selfPlay_move[where k = 7, OF _ _ gameX2_move4])
       (simp_all add: evaluate_def checkWin_def WINNING_LINES_def lineComplete_def boardGet_def
          isDraw_def isNull_def other_def numeral_nat)
  have s5: "selfPlay 4 [Some MarkX, Some MarkO, Some MarkX, None, Some MarkO, None, None, Some MarkX, None] MarkO u =
      selfPlay 3 [Some MarkX, Some MarkO, Some MarkX, Some MarkO, Some MarkO, None, None, Some MarkX, None] MarkX u"
    by (rule selfPlay_move[where k = 3, OF _ _ gameX2_move5])
       (simp_all add: evaluate_def checkWin_def WINNING_LINES_def lineComplete_def boardGet_def
          isDraw_def isNull_def other_def numeral_nat)
  have s6: "selfPlay 3 [Some MarkX, Some MarkO, Some MarkX, Some MarkO, Some MarkO, None, None, Some MarkX, None] MarkX u =
      selfPlay 2 [Some MarkX, Some MarkO, Some MarkX, Some MarkO, Some MarkO, Some MarkX, None, Some MarkX, None] MarkO u"
    by (rule selfPlay_move[where k = 5, OF _ _ gameX2_move6])
       (simp_all add: evaluate_def checkWin_def WINNING_LINES_def lineComplete_def boardGet_def
          isDraw_def isNull_def other_def numeral_nat)
  have s7: "selfPlay 2 [Some MarkX, Some MarkO, Some MarkX, Some MarkO, Some MarkO, Some MarkX, None, Some MarkX, None] MarkO u =
      selfPlay 1 [Some MarkX, Some MarkO, Some MarkX, Some MarkO, Some MarkO, Some MarkX, None, Some MarkX, Some MarkO] MarkX u"
    by (rule selfPlay_move[where k = 8, OF _ _ gameX2_move7])
       (simp_all add: evaluate_def checkWin_def WINNING_LINES_def lineComplete_def boardGet_def
          isDraw_def isNull_def other_def numeral_nat)
  have s8: "selfPlay 1 [Some MarkX, Some MarkO, Some MarkX, Some MarkO, Some MarkO, Some MarkX, None, Some MarkX, Some MarkO] MarkX u =
      selfPlay 0 [Some MarkX, Some MarkO, Some MarkX, Some MarkO, Some MarkO, Some MarkX, Some MarkX, Some MarkX, Some MarkO] MarkO u"
    by (rule selfPlay_move[where k = 6, OF _ _ gameX2_move8])
       (simp_all add: evaluate_def checkWin_def WINNING_LINES_def lineComplete_def boardGet_def
          isDraw_def isNull_def other_def numeral_nat)
  show ?thesis
    unfolding s1 s2 s3 s4 s5 s6 s7 s8 by simp
qed

lemma gameX6_move1:
  "minimax [None, None, None, None, None, None, Some MarkX, None, None]
     MarkO MarkX True NegInf PosInf 0 =
   (\<lparr>index = Some 4, score = Fin 0\<rparr>,
    [None, None, None, None, None, None, Some MarkX, None, None])"
  by (simp only: minimax9 cong: if_weak_cong option.case_cong_weak)

lemma gameX6_move2:
  "minimax [None, None, None, None, Some MarkO, None, Some MarkX, None, None]
     MarkX MarkO True NegInf PosInf 0 =
   (\<lparr>index = Some 0, score = Fin 0\<rparr>,
    [None, None, None, None, Some MarkO, None, Some MarkX, None, None])"
  by (simp only: minimax9 cong: if_weak_cong option.case_cong_weak)

lemma gameX6_move3:
  "minimax [Some MarkX, None, None, None, Some MarkO, None, Some MarkX, None, None]
     MarkO MarkX True NegInf PosInf 0 =
   (\<lparr>index = Some 3, score = Fin 0\<rparr>,
    [Some MarkX, None, None, None, Some MarkO, None, Some MarkX, None, None])"
  by (simp only: minimax9 cong: if_weak_cong option.case_cong_weak)

lemma gameX6_move4:
  "minimax [Some MarkX, None, None, Some MarkO, Some MarkO, None, Some MarkX, None, None]
     MarkX MarkO True NegInf PosInf 0 =
   (\<lparr>index = Some 5, score = Fin 0\<rparr>,
    [Some MarkX, None, None, Some MarkO, Some MarkO, None, Some MarkX, None, None])"
  by (simp only: minimax9 cong: if_weak_cong option.case_cong_weak)

lemma gameX6_move5:
  "minimax [Some MarkX, None, None, Some MarkO, Some MarkO, Some MarkX, Some MarkX, None, None]
     MarkO MarkX True NegInf PosInf 0 =
   (\<lparr>index = Some 1, score = Fin 0\<rparr>,
    [Some MarkX, None, None, Some MarkO, Some MarkO, Some MarkX, Some MarkX, None, None])"
  by (simp only: minimax9 cong: if_weak_cong option.case_cong_weak)

lemma gameX6_move6:
  "minimax [Some MarkX, Some MarkO, None, Some MarkO, Some MarkO, Some MarkX, Some MarkX, None, None]
     MarkX MarkO True NegInf PosInf 0 =
   (\<lparr>index = Some 7, score = Fin 0\<rparr>,
    [Some MarkX, Some MarkO, None, Some MarkO, Some MarkO, Some MarkX, Some MarkX, None, None])"
  by (simp only: minimax9 cong: if_weak_cong option.case_cong_weak)

lemma gameX6_move7:
  "minimax [Some MarkX, Some MarkO, None, Some MarkO, Some MarkO, Some MarkX, Some MarkX, Some MarkX, None]
     MarkO MarkX True NegInf PosInf 0 =
   (\<lparr>index = Some 8, score = Fin 0\<rparr>,
    [Some MarkX, Some MarkO, None, Some MarkO, Some MarkO, Some MarkX, Some MarkX, Some MarkX, None])"
  by (simp only: minimax9 cong: if_weak_cong option.case_cong_weak)

lemma gameX6_move8:
  "minimax [Some MarkX, Some MarkO, None, Some MarkO, Some MarkO, Some MarkX, Some MarkX, Some MarkX, Some MarkO]
     MarkX MarkO True NegInf PosInf 0 =
   (\<lparr>index = Some 2, score = Fin 0\<rparr>,
    [Some MarkX, Some MarkO, None, Some MarkO, Some MarkO, Some MarkX, Some MarkX, Some MarkX, Some MarkO])"
  by (simp only: minimax9 cong: if_weak_cong option.case_cong_weak)

lemma gameX6:
  "selfPlay 8 [None, None, None, None, None, None, Some MarkX, None, None] MarkO u =
   [Some MarkX, Some MarkO, Some MarkX, Some MarkO, Some MarkO, Some MarkX, Some MarkX, Some MarkX, Some MarkO]"
proof -
  have s1: "selfPlay 8 [None, None, None, None, None, None, Some MarkX, None, None] MarkO u =
      selfPlay 7 [None, None, None, None, Some MarkO, None, Some MarkX, None, None] MarkX u"
    by (rule selfPlay_move[where k = 4, OF _ _ gameX6_move1])
       (simp_all add: evaluate_def checkWin_def WINNING_LINES_def lineComplete_def boardGet_def
          isDraw_def isNull_def other_def numeral_nat)
  have s2: "selfPlay 7 [None, None, None, None, Some MarkO, None, Some MarkX, None, None] MarkX u =
      selfPlay 6 [Some MarkX, None, None, None, Some MarkO, None, Some MarkX, None, None] MarkO u"
    by (rule selfPlay_move[where k = 0, OF _ _ gameX6_move2])
       (simp_all add: evaluate_def checkWin_def WINNING_LINES_def lineComplete_def boardGet_def
          isDraw_def isNull_def other_def numeral_nat)
  have s3: "selfPlay 6 [Some MarkX, None, None, None, Some MarkO, None, Some MarkX, None, None] MarkO u =
      selfPlay 5 [Some MarkX, None, None, Some MarkO, Some MarkO, None, Some MarkX, None, None] MarkX u"
    by (rule selfPlay_move[where k = 3, OF _ _ gameX6_move3])
       (simp_all add: evaluate_def checkWin_def WINNING_LINES_def lineComplete_def boardGet_def
          isDraw_def isNull_def other_def numeral_nat)
  have s4: "selfPlay 5 [Some MarkX, None, None, Some MarkO, Some MarkO, None, Some MarkX, None, None] MarkX u =
      selfPlay 4 [Some MarkX, None, None, Some MarkO, Some MarkO, Some MarkX, Some MarkX, None, None] MarkO u"
    by (rule selfPlay_move[where k = 5, OF _ _ gameX6_move4])
       (simp_all add: evaluate_def checkWin_def WINNING_LINES_def lineComplete_def boardGet_def
          isDraw_def isNull_def other_def numeral_nat)
  have s5: "selfPlay 4 [Some MarkX, None, None, Some MarkO, Some MarkO, Some MarkX, Some MarkX, None, None] MarkO u =
      selfPlay 3 [Some MarkX, Some MarkO, None, Some MarkO, Some MarkO, Some MarkX, Some MarkX, None, None] MarkX u"
    by (rule selfPlay_move[where k = 1, OF _ _ gameX6_move5])
       (simp_all add: evaluate_def checkWin_def WINNING_LINES_def lineComplete_def boardGet_def
          isDraw_def isNull_def other_def numeral_nat)
  have s6: "selfPlay 3 [Some MarkX, Some MarkO, None, Some MarkO, Some MarkO, Some MarkX, Some MarkX, None, None] MarkX u =
      selfPlay 2 [Some MarkX, Some MarkO, None, Some MarkO, Some MarkO, Some MarkX, Some MarkX, Some MarkX, None] MarkO u"
    by (rule selfPlay_move[where k = 7, OF _ _ gameX6_move6])
       (simp_all add: evaluate_def checkWin_def WINNING_LINES_def lineComplete_def boardGet_def
          isDraw_def isNull_def other_def numeral_nat)
  have s7: "selfPlay 2 [Some MarkX, Some MarkO, None, Some MarkO, Some MarkO, Some MarkX, Some MarkX, Some MarkX, None] MarkO u =
      selfPlay 1 [Some MarkX, Some MarkO, None, Some MarkO, Some MarkO, Some MarkX, Some MarkX, Some MarkX, Some MarkO] MarkX u"
    by (rule selfPlay_move[where k = 8, OF _ _ gameX6_move7])
       (simp_all add: evaluate_def checkWin_def WINNING_LINES_def lineComplete_def boardGet_def
          isDraw_def isNull_def other_def numeral_nat)
  have s8: "selfPlay 1 [Some MarkX, Some MarkO, None, Some MarkO, Some MarkO, Some MarkX, Some MarkX, Some MarkX, Some MarkO] MarkX u =
      selfPlay 0 [Some MarkX, Some MarkO, Some MarkX, Some MarkO, Some MarkO, Some MarkX, Some MarkX, Some MarkX, Some MarkO] MarkO u"
    by (rule selfPlay_move[where k = 2, OF _ _ gameX6_move8])
       (simp_all add: evaluate_def checkWin_def WINNING_LINES_def lineComplete_def boardGet_def
          isDraw_def isNull_def other_def numeral_nat)
  show ?thesis
    unfolding s1 s2 s3 s4 s5 s6 s7 s8 by simp
qed

lemma gameX8_move1:
  "minimax [None, None, None, None, None, None, None, None, Some MarkX]
     MarkO MarkX True NegInf PosInf 0 =
   (\<lparr>index = Some 4, score = Fin 0\<rparr>,
    [None, None, None, None, None, None, None, None, Some MarkX])"
  by (simp only: minimax9 cong: if_weak_cong option.case_cong_weak)

lemma gameX8_move2:
  "minimax [None, None, None, None, Some MarkO, None, None, None, Some MarkX]
     MarkX MarkO True NegInf PosInf 0 =
   (\<lparr>index = Some 0, score = Fin 0\<rparr>,
    [None, None, None, None, Some MarkO, None, None, None, Some MarkX])"
  by (simp only: minimax9 cong: if_weak_cong option.case_cong_weak)

lemma gameX8_move3:
  "minimax [Some MarkX, None, None, None, Some MarkO, None, None, None, Some MarkX]
     MarkO MarkX True NegInf PosInf 0 =
   (\<lparr>index = Some 1, score = Fin 0\<rparr>,
    [Some MarkX, None, None, None, Some MarkO, None, None, None, Some MarkX])"
  by (simp only: minimax9 cong: if_weak_cong option.case_cong_weak)

lemma gameX8_move4:
  "minimax [Some MarkX, Some MarkO, None, None, Some MarkO, None, None, None, Some MarkX]
     MarkX MarkO True NegInf PosInf 0 =
   (\<lparr>index = Some 7, score = Fin 0\<rparr>,
    [Some MarkX, Some MarkO, None, None, Some MarkO, None, None, None, Some MarkX])"
  by (simp only: minimax9 cong: if_weak_cong option.case_cong_weak)

lemma gameX8_move5:
  "minimax [Some MarkX, Some MarkO, None, None, Some MarkO, None, None, Some MarkX, Some MarkX]
     MarkO MarkX True NegInf PosInf 0 =
   (\<lparr>index = Some 6, score = Fin 0\<rparr>,
    [Some MarkX, Some MarkO, None, None, Some MarkO, None, None, Some MarkX, Some MarkX])"
  by (simp only: minimax9 cong: if_weak_cong option.case_cong_weak)

lemma gameX8_move6:
  "minimax [Some MarkX, Some MarkO, None, None, Some MarkO, None, Some MarkO, Some MarkX, Some MarkX]
     MarkX MarkO True NegInf PosInf 0 =
   (\<lparr>index = Some 2, score = Fin 0\<rparr>,
    [Some MarkX, Some MarkO, None, None, Some MarkO, None, Some MarkO, Some MarkX, Some MarkX])"
  by (simp only: minimax9 cong: if_weak_cong option.case_cong_weak)

lemma gameX8_move7:
  "minimax [Some MarkX, Some MarkO, Some MarkX, None, Some MarkO, None, Some MarkO, Some MarkX, Some MarkX]
     MarkO MarkX True NegInf PosInf 0 =
   (\<lparr>index = Some 5, score = Fin 0\<rparr>,
    [Some MarkX, Some MarkO, Some MarkX, None, Some MarkO, None, Some MarkO, Some MarkX, Some MarkX])"
  by (simp only: minimax9 cong: if_weak_cong option.case_cong_weak)

lemma gameX8_move8:
  "minimax [Some MarkX, Some MarkO, Some MarkX, None, Some MarkO, Some MarkO, Some MarkO, Some MarkX, Some MarkX]
     MarkX MarkO True NegInf PosInf 0 =
   (\<lparr>index = Some 3, score = Fin 0\<rparr>,
    [Some MarkX, Some MarkO, Some MarkX, None, Some MarkO, Some MarkO, Some MarkO, Some MarkX, Some MarkX])"
  by (simp only: minimax9 cong: if_weak_cong option.case_cong_weak)

lemma gameX8:
  "selfPlay 8 [None, None, None, None, None, None, None, None, Some MarkX] MarkO u =
   [Some MarkX, Some MarkO, Some MarkX, Some MarkX, Some MarkO, Some MarkO, Some MarkO, Some MarkX, Some MarkX]"
proof -
  have s1: "selfPlay 8 [None, None, None, None, None, None, None, None, Some MarkX] MarkO u =
      selfPlay 7 [None, None, None, None, Some MarkO, None, None, None, Some MarkX] MarkX u"
    by (rule selfPlay_move[where k = 4, OF _ _ gameX8_move1])
       (simp_all add: evaluate_def checkWin_def WINNING_LINES_def lineComplete_def boardGet_def
          isDraw_def isNull_def other_def numeral_nat)
  have s2: "selfPlay 7 [None, None, None, None, Some MarkO, None, None, None, Some MarkX] MarkX u =
      selfPlay 6 [Some MarkX, None, None, None, Some MarkO, None, None, None, Some MarkX] MarkO u"
    by (rule selfPlay_move[where k = 0, OF _ _ gameX8_move2])
       (simp_all add: evaluate_def checkWin_def WINNING_LINES_def lineComplete_def boardGet_def
          isDraw_def isNull_def other_def numeral_nat)
  have s3: "selfPlay 6 [Some MarkX, None, None, None, Some MarkO, None, None, None, Some MarkX] MarkO u =
      selfPlay 5 [Some MarkX, Some MarkO, None, None, Some MarkO, None, None, None, Some MarkX] MarkX u"
    by (rule selfPlay_move[where k = 1, OF _ _ gameX8_move3])
       (simp_all add: evaluate_def checkWin_def WINNING_LINES_def lineComplete_def boardGet_def
          isDraw_def isNull_def other_def numeral_nat)
  have s4: "selfPlay 5 [Some MarkX, Some MarkO, None, None, Some MarkO, None, None, None, Some MarkX] MarkX u =
      selfPlay 4 [Some MarkX, Some MarkO, None, None, Some MarkO, None, None, Some MarkX, Some MarkX] MarkO u"
    by (rule selfPlay_move[where k = 7, OF _ _ gameX8_move4])
       (simp_all add: evaluate_def checkWin_def WINNING_LINES_def lineComplete_def boardGet_def
          isDraw_def isNull_def other_def numeral_nat)
  have s5: "selfPlay 4 [Some MarkX, Some MarkO, None, None, Some MarkO, None, None, Some MarkX, Some MarkX] MarkO u =
      selfPlay 3 [Some MarkX, Some MarkO, None, None, Some MarkO, None, Some MarkO, Some MarkX, Some MarkX] MarkX u"
    by (rule selfPlay_move[where k = 6, OF _ _ gameX8_move5])
       (simp_all add: evaluate_def checkWin_def WINNING_LINES_def lineComplete_def boardGet_def
          isDraw_def isNull_def other_def numeral_nat)
  have s6: "selfPlay 3 [Some MarkX, Some MarkO, None, None, Some MarkO, None, Some MarkO, Some MarkX, Some MarkX] MarkX u =
      selfPlay 2 [Some MarkX, Some MarkO, Some MarkX, None, Some MarkO, None, Some MarkO, Some MarkX, Some MarkX] MarkO u"
    by (rule selfPlay_move[where k = 2, OF _ _ gameX8_move6])
       (simp_all add: evaluate_def checkWin_def WINNING_LINES_def lineComplete_def boardGet_def
          isDraw_def isNull_def other_def numeral_nat)
  have s7: "selfPlay 2 [Some MarkX, Some MarkO, Some MarkX, None, Some MarkO, None, Some MarkO, Some MarkX, Some MarkX] MarkO u =
      selfPlay 1 [Some MarkX, Some MarkO, Some MarkX, None, Some MarkO, Some MarkO, Some MarkO, Some MarkX, Some MarkX] MarkX u"
    by (rule selfPlay_move[where k = 5, OF _ _ gameX8_move7])
       (simp_all add: evaluate_def checkWin_def WINNING_LINES_def lineComplete_def boardGet_def
          isDraw_def isNull_def other_def numeral_nat)
  have s8: "selfPlay 1 [Some MarkX, Some MarkO, Some MarkX, None, Some MarkO, Some MarkO, Some MarkO, Some MarkX, Some MarkX] MarkX u =
      selfPlay 0 [Some MarkX, Some MarkO, Some MarkX, Some MarkX, Some MarkO, Some MarkO, Some MarkO, Some MarkX, Some MarkX] MarkO u"
    by (rule selfPlay_move[where k = 3, OF _ _ gameX8_move8])
       (simp_all add: evaluate_def checkWin_def WINNING_LINES_def lineComplete_def boardGet_def
          isDraw_def isNull_def other_def numeral_nat)
  show ?thesis
    unfolding s1 s2 s3 s4 s5 s6 s7 s8 by simp
qed

lemma gameO0_move1:
  "minimax [Some MarkO, None, None, None, None, None, None, None, None]
     MarkX MarkO True NegInf PosInf 0 =
   (\<lparr>index = Some 4, score = Fin 0\<rparr>,
    [Some MarkO, None, None, None, None, None, None, None, None])"
  by (simp only: minimax9 cong: if_weak_cong option.case_cong_weak)

lemma gameO0_move2:
  "minimax [Some MarkO, None, None, None, Some MarkX, None, None, None, None]
     MarkO MarkX True NegInf PosInf 0 =
   (\<lparr>index = Some 1, score = Fin 0\<rparr>,
    [Some MarkO, None, None, None, Some MarkX, None, None, None, None])"
  by (simp only: minimax9 cong: if_weak_cong option.case_cong_weak)

lemma gameO0_move3:
  "minimax [Some MarkO, Some MarkO, None, None, Some MarkX, None, None, None, None]
     MarkX MarkO True NegInf PosInf 0 =
   (\<lparr>index = Some 2, score = Fin 0\<rparr>,
    [Some MarkO, Some MarkO, None, None, Some MarkX, None, None, None, None])"
  by (simp only: minimax9 cong: if_weak_cong option.case_cong_weak)

lemma gameO0_move4:
  "minimax [Some MarkO, Some MarkO, Some MarkX, None, Some MarkX, None, None, None, None]
     MarkO MarkX True NegInf PosInf 0 =
   (\<lparr>index = Some 6, score = Fin 0\<rparr>,
    [Some MarkO, Some MarkO, Some MarkX, None, Some MarkX, None, None, None, None])"
  by (simp only: minimax9 cong: if_weak_cong option.case_cong_weak)

lemma gameO0_move5:
  "minimax [Some MarkO, Some MarkO, Some MarkX, None, Some MarkX, None, Some MarkO, None, None]
     MarkX MarkO True NegInf PosInf 0 =
   (\<lparr>index = Some 3, score = Fin 0\<rparr>,
    [Some MarkO, Some MarkO, Some MarkX, None, Some MarkX, None, Some MarkO, None, None])"
  by (simp only: minimax9 cong: if_weak_cong option.case_cong_weak)

lemma gameO0_move6:
  "minimax [Some MarkO, Some MarkO, Some MarkX, Some MarkX, Some MarkX, None, Some MarkO, None, None]
     MarkO MarkX True NegInf PosInf 0 =
   (\<lparr>index = Some 5, score = Fin 0\<rparr>,
    [Some MarkO, Some MarkO, Some MarkX, Some MarkX, Some MarkX, None, Some MarkO, None, None])"
  by (simp only: minimax9 cong: if_weak_cong option.case_cong_weak)

lemma gameO0_move7:
  "minimax [Some MarkO, Some MarkO, Some MarkX, Some MarkX, Some MarkX, Some MarkO, Some MarkO, None, None]
     MarkX MarkO True NegInf PosInf 0 =
   (\<lparr>index = Some 7, score = Fin 0\<rparr>,
    [Some MarkO, Some MarkO, Some MarkX, Some MarkX, Some MarkX, Some MarkO, Some MarkO, None, None])"
  by (simp only: minimax9 cong: if_weak_cong option.case_cong_weak)

lemma gameO0_move8:
  "minimax [Some MarkO, Some MarkO, Some MarkX, Some MarkX, Some MarkX, Some MarkO, Some MarkO, Some MarkX, None]
     MarkO MarkX True NegInf PosInf 0 =
   (\<lparr>index = Some 8, score = Fin 0\<rparr>,
    [Some MarkO, Some MarkO, Some MarkX, Some MarkX, Some MarkX, Some MarkO, Some MarkO, Some MarkX, None])"
  by (simp only: minimax9 cong: if_weak_cong option.case_cong_weak)

lemma gameO0:
  "selfPlay 8 [Some MarkO, None, None, None, None, None, None, None, None] MarkX u =
   [Some MarkO, Some MarkO, Some MarkX, Some MarkX, Some MarkX, Some MarkO, Some MarkO, Some MarkX, Some MarkO]"
proof -
  have s1: "selfPlay 8 [Some MarkO, None, None, None, None, None, None, None, None] MarkX u =
      selfPlay 7 [Some MarkO, None, None, None, Some MarkX, None, None, None, None] MarkO u"
    by (rule selfPlay_move[where k = 4, OF _ _ gameO0_move1])
       (simp_all add: evaluate_def checkWin_def WINNING_LINES_def lineComplete_def boardGet_def
          isDraw_def isNull_def other_def numeral_nat)
  have s2: "selfPlay 7 [Some MarkO, None, None, None, Some MarkX, None, None, None, None] MarkO u =
      selfPlay 6 [Some MarkO, Some MarkO, None, None, Some MarkX, None, None, None, None] MarkX u"
    by (rule selfPlay_move[where k = 1, OF _ _ gameO0_move2])
       (simp_all add: evaluate_def checkWin_def WINNING_LINES_def lineComplete_def boardGet_def
          isDraw_def isNull_def other_def numeral_nat)
  have s3: "selfPlay 6 [Some MarkO, Some MarkO, None, None, Some MarkX, None, None, None, None] MarkX u =
      selfPlay 5 [Some MarkO, Some MarkO, Some MarkX, None, Some MarkX, None, None, None, None] MarkO u"
    by (rule selfPlay_move[where k = 2, OF _ _ gameO0_move3])
       (simp_all add: evaluate_def checkWin_def WINNING_LINES_def lineComplete_def boardGet_def
          isDraw_def isNull_def other_def numeral_nat)
  have s4: "selfPlay 5 [Some MarkO, Some MarkO, Some MarkX, None, Some MarkX, None, None, None, None] MarkO u =
      selfPlay 4 [Some MarkO, Some MarkO, Some MarkX, None, Some MarkX, None, Some MarkO, None, None] MarkX u"
    by (rule selfPlay_move[where k = 6, OF _ _ gameO0_move4])
       (simp_all add: evaluate_def checkWin_def WINNING_LINES_def lineComplete_def boardGet_def
          isDraw_def isNull_def other_def numeral_nat)
  have s5: "selfPlay 4 [Some MarkO, Some MarkO, Some MarkX, None, Some MarkX, None, Some MarkO, None, None] MarkX u =
      selfPlay 3 [Some MarkO, Some MarkO, Some MarkX, Some MarkX, Some MarkX, None, Some MarkO, None, None] MarkO u"
    by (rule selfPlay_move[where k = 3, OF _ _ gameO0_move5])
       (simp_all add: evaluate_def checkWin_def WINNING_LINES_def lineComplete_def boardGet_def
          isDraw_def isNull_def other_def numeral_nat)
  have s6: "selfPlay 3 [Some MarkO, Some MarkO, Some MarkX, Some MarkX, Some MarkX, None, Some MarkO, None, None] MarkO u =
      selfPlay 2 [Some MarkO, Some MarkO, Some MarkX, Some MarkX, Some MarkX, Some MarkO, Some MarkO, None, None] MarkX u"
    by (rule selfPlay_move[where k = 5, OF _ _ gameO0_move6])
       (simp_all add: evaluate_def checkWin_def WINNING_LINES_def lineComplete_def boardGet_def
          isDraw_def isNull_def other_def numeral_nat)
  have s7: "selfPlay 2 [Some MarkO, Some MarkO, Some MarkX, Some MarkX, Some MarkX, Some MarkO, Some MarkO, None, None] MarkX u =
      selfPlay 1 [Some MarkO, Some MarkO, Some MarkX, Some MarkX, Some MarkX, Some MarkO, Some MarkO, Some MarkX, None] MarkO u"
    by (rule selfPlay_move[where k = 7, OF _ _ gameO0_move7])
       (simp_all add: evaluate_def checkWin_def WINNING_LINES_def lineComplete_def boardGet_def
          isDraw_def isNull_def other_def numeral_nat)
  have s8: "selfPlay 1 [Some MarkO, Some MarkO, Some MarkX, Some MarkX, Some MarkX, Some MarkO, Some MarkO, Some MarkX, None] MarkO u =
      selfPlay 0 [Some MarkO, Some MarkO, Some MarkX, Some MarkX, Some MarkX, Some MarkO, Some MarkO, Some MarkX, Some MarkO] MarkX u"
    by (rule selfPlay_move[where k = 8, OF _ _ gameO0_move8])
       (simp_all add: evaluate_def checkWin_def WINNING_LINES_def lineComplete_def boardGet_def
          isDraw_def isNull_def other_def numeral_nat)
  show ?thesis
    unfolding s1 s2 s3 s4 s5 s6 s7 s8 by simp
qed

lemma gameO2_move1:
  "minimax [None, None, Some MarkO, None, None, None, None, None, None]
     MarkX MarkO True NegInf PosInf 0 =
   (\<lparr>index = Some 4, score = Fin 0\<rparr>,
    [None, None, Some MarkO, None, None, None, None, None, None])"
  by (simp only: minimax9 cong: if_weak_cong option.case_cong_weak)

lemma gameO2_move2:
  "minimax [None, None, Some MarkO, None, Some MarkX, None, None, None, None]
     MarkO MarkX True NegInf PosInf 0 =
   (\<lparr>index = Some 0, score = Fin 0\<rparr>,
    [None, None, Some MarkO, None, Some MarkX, None, None, None, None])"
  by (simp only: minimax9 cong: if_weak_cong option.case_cong_weak)

lemma gameO2_move3:
  "minimax [Some MarkO, None, Some MarkO, None, Some MarkX, None, None, None, None]
     MarkX MarkO True NegInf PosInf 0 =
   (\<lparr>index = Some 1, score = Fin 0\<rparr>,
    [Some MarkO, None, Some MarkO, None, Some MarkX, None, None, None, None])"
  by (simp only: minimax9 cong: if_weak_cong option.case_cong_weak)

lemma gameO2_move4:
  "minimax [Some MarkO, Some MarkX, Some MarkO, None, Some MarkX, None, None, None, None]
     MarkO MarkX True NegInf PosInf 0 =
   (\<lparr>index = Some 7, score = Fin 0\<rparr>,
    [Some MarkO, Some MarkX, Some MarkO, None, Some MarkX, None, None, None, None])"
  by (simp only: minimax9 cong: if_weak_cong option.case_cong_weak)

lemma gameO2_move5:
  "minimax [Some MarkO, Some MarkX, Some MarkO, None, Some MarkX, None, None, Some MarkO, None]
     MarkX MarkO True NegInf PosInf 0 =
   (\<lparr>index = Some 3, score = Fin 0\<rparr>,
    [Some MarkO, Some MarkX, Some MarkO, None, Some MarkX, None, None, Some MarkO, None])"
  by (simp only: minimax9 cong: if_weak_cong option.case_cong_weak)

lemma gameO2_move6:
  "minimax [Some MarkO, Some MarkX, Some MarkO, Some MarkX, Some MarkX, None, None, Some MarkO, None]
     MarkO MarkX True NegInf PosInf 0 =
   (\<lparr>index = Some 5, score = Fin 0\<rparr>,
    [Some MarkO, Some MarkX, Some MarkO, Some MarkX, Some MarkX, None, None, Some MarkO, None])"
  by (simp only: minimax9 cong: if_weak_cong option.case_cong_weak)

lemma gameO2_move7:
  "minimax [Some MarkO, Some MarkX, Some MarkO, Some MarkX, Some MarkX, Some MarkO, None, Some MarkO, None]
     MarkX MarkO True NegInf PosInf 0 =
   (\<lparr>index = Some 8, score = Fin 0\<rparr>,
    [Some MarkO, Some MarkX, Some MarkO, Some MarkX, Some MarkX, Some MarkO, None, Some MarkO, None])"
  by (simp only: minimax9 cong: if_weak_cong option.case_cong_weak)

lemma gameO2_move8:
  "minimax [Some MarkO, Some MarkX, Some MarkO, Some MarkX, Some MarkX, Some MarkO, None, Some MarkO, Some MarkX]
     MarkO MarkX True NegInf PosInf 0 =
   (\<lparr>index = Some 6, score = Fin 0\<rparr>,
    [Some MarkO, Some MarkX, Some MarkO, Some MarkX, Some MarkX, Some MarkO, None, Some MarkO, Some MarkX])"
  by (simp only: minimax9 cong: if_weak_cong option.case_cong_weak)

lemma gameO2:
  "selfPlay 8 [None, None, Some MarkO, None, None, None, None, None, None] MarkX u =
   [Some MarkO, Some MarkX, Some MarkO, Some MarkX, Some MarkX, Some MarkO, Some MarkO, Some MarkO, Some MarkX]"
proof -
  have s1: "selfPlay 8 [None, None, Some MarkO, None, None, None, None, None, None] MarkX u =
      selfPlay 7 [None, None, Some MarkO, None, Some MarkX, None, None, None, None] MarkO u"
    by (rule selfPlay_move[where k = 4, OF _ _ gameO2_move1])
       (simp_all add: evaluate_def checkWin_def WINNING_LINES_def lineComplete_def boardGet_def
          isDraw_def isNull_def other_def numeral_nat)
  have s2: "selfPlay 7 [None, None, Some MarkO, None, Some MarkX, None, None, None, None] MarkO u =
      selfPlay 6 [Some MarkO, None, Some MarkO, None, Some MarkX, None, None, None, None] MarkX u"
    by (rule selfPlay_move[where k = 0, OF _ _ gameO2_move2])
       (simp_all add: evaluate_def checkWin_def WINNING_LINES_def lineComplete_def boardGet_def
          isDraw_def isNull_def other_def numeral_nat)
  have s3: "selfPlay 6 [Some MarkO, None, Some MarkO, None, Some MarkX, None, None, None, None] MarkX u =
      selfPlay 5 [Some MarkO, Some MarkX, Some MarkO, None, Some MarkX, None, None, None, None] MarkO u"
    by (rule selfPlay_move[where k = 1, OF _ _ gameO2_move3])
       (simp_all add: evaluate_def checkWin_def WINNING_LINES_def lineComplete_def boardGet_def
          isDraw_def isNull_def other_def numeral_nat)
  have s4: "selfPlay 5 [Some MarkO, Some MarkX, Some MarkO, None, Some MarkX, None, None, None, None] MarkO u =
      selfPlay 4 [Some MarkO, Some MarkX, Some MarkO, None, Some MarkX, None, None, Some MarkO, None] MarkX u"
    by (rule selfPlay_move[where k = 7, OF _ _ gameO2_move4])
       (simp_all add: evaluate_def checkWin_def WINNING_LINES_def lineComplete_def boardGet_def
          isDraw_def isNull_def other_def numeral_nat)
  have s5: "selfPlay 4 [Some MarkO, Some MarkX, Some MarkO, None, Some MarkX, None, None, Some MarkO, None] MarkX u =
      selfPlay 3 [Some MarkO, Some MarkX, Some MarkO, Some MarkX, Some MarkX, None, None, Some MarkO, None] MarkO u"
    by (rule selfPlay_move[where k = 3, OF _ _ gameO2_move5])
       (simp_all add: evaluate_def checkWin_def WINNING_LINES_def lineComplete_def boardGet_def
          isDraw_def isNull_def other_def numeral_nat)
  have s6: "selfPlay 3 [Some MarkO, Some MarkX, Some MarkO, Some MarkX, Some MarkX, None, None, Some MarkO, None] MarkO u =
      selfPlay 2 [Some MarkO, Some MarkX, Some MarkO, Some MarkX, Some MarkX, Some MarkO, None, Some MarkO, None] MarkX u"
    by (rule selfPlay_move[where k = 5, OF _ _ gameO2_move6])
       (simp_all add: evaluate_def checkWin_def WINNING_LINES_def lineComplete_def boardGet_def
          isDraw_def isNull_def other_def numeral_nat)
  have s7: "selfPlay 2 [Some MarkO, Some MarkX, Some MarkO, Some MarkX, Some MarkX, Some MarkO, None, Some MarkO, None] MarkX u =
      selfPlay 1 [Some MarkO, Some MarkX, Some MarkO, Some MarkX, Some MarkX, Some MarkO, None, Some MarkO, Some MarkX] MarkO u"
    by (rule selfPlay_move[where k = 8, OF _ _ gameO2_move7])
       (simp_all add: evaluate_def checkWin_def WINNING_LINES_def lineComplete_def boardGet_def
          isDraw_def isNull_def other_def numeral_nat)
  have s8: "selfPlay 1 [Some MarkO, Some MarkX, Some MarkO, Some MarkX, Some MarkX, Some MarkO, None, Some MarkO, Some MarkX] MarkO u =
      selfPlay 0 [Some MarkO, Some MarkX, Some MarkO, Some MarkX, Some MarkX, Some MarkO, Some MarkO, Some MarkO, Some MarkX] MarkX u"
    by (rule selfPlay_move[where k = 6, OF _ _ gameO2_move8])
       (simp_all add: evaluate_def checkWin_def WINNING_LINES_def lineComplete_def boardGet_def
          isDraw_def isNull_def other_def numeral_nat)
  show ?thesis
    unfolding s1 s2 s3 s4 s5 s6 s7 s8 by simp
qed

lemma gameO6_move1:
  "minimax [None, None, None, None, None, None, Some MarkO, None, None]
     MarkX MarkO True NegInf PosInf 0 =
   (\<lparr>index = Some 4, score = Fin 0\<rparr>,
    [None, None, None, None, None, None, Some MarkO, None, None])"
  by (simp only: minimax9 cong: if_weak_cong option.case_cong_weak)

lemma gameO6_move2:
  "minimax [None, None, None, None, Some MarkX, None, Some MarkO, None, None]
     MarkO MarkX True NegInf PosInf 0 =
   (\<lparr>index = Some 0, score = Fin 0\<rparr>,
    [None, None, None, None, Some MarkX, None, Some MarkO, None, None])"
  by (simp only: minimax9 cong: if_weak_cong option.case_cong_weak)

lemma gameO6_move3:
  "minimax [Some MarkO, None, None, None, Some MarkX, None, Some MarkO, None, None]
     MarkX MarkO True NegInf PosInf 0 =
   (\<lparr>index = Some 3, score = Fin 0\<rparr>,
    [Some MarkO, None, None, None, Some MarkX, None, Some MarkO, None, None])"
  by (simp only: minimax9 cong: if_weak_cong option.case_cong_weak)

lemma gameO6_move4:
  "minimax [Some MarkO, None, None, Some MarkX, Some MarkX, None, Some MarkO, None, None]
     MarkO MarkX True NegInf PosInf 0 =
   (\<lparr>index = Some 5, score = Fin 0\<rparr>,
    [Some MarkO, None, None, Some MarkX, Some MarkX, None, Some MarkO, None, None])"
  by (simp only: minimax9 cong: if_weak_cong option.case_cong_weak)

lemma gameO6_move5:
  "minimax [Some MarkO, None, None, Some MarkX, Some MarkX, Some MarkO, Some MarkO, None, None]
     MarkX MarkO True NegInf PosInf 0 =
   (\<lparr>index = Some 1, score = Fin 0\<rparr>,
    [Some MarkO, None, None, Some MarkX, Some MarkX, Some MarkO, Some MarkO, None, None])"
  by (simp only: minimax9 cong: if_weak_cong option.case_cong_weak)

lemma gameO6_move6:
  "minimax [Some MarkO, Some MarkX, None, Some MarkX, Some MarkX, Some MarkO, Some MarkO, None, None]
     MarkO MarkX True NegInf PosInf 0 =
   (\<lparr>index = Some 7, score = Fin 0\<rparr>,
    [Some MarkO, Some MarkX, None, Some MarkX, Some MarkX, Some MarkO, Some MarkO, None, None])"
  by (simp only: minimax9 cong: if_weak_cong option.case_cong_weak)

lemma gameO6_move7:
  "minimax [Some MarkO, Some MarkX, None, Some MarkX, Some MarkX, Some MarkO, Some MarkO, Some MarkO, None]
     MarkX MarkO True NegInf PosInf 0 =
   (\<lparr>index = Some 8, score = Fin 0\<rparr>,
    [Some MarkO, Some MarkX, None, Some MarkX, Some MarkX, Some MarkO, Some MarkO, Some MarkO, None])"
  by (simp only: minimax9 cong: if_weak_cong option.case_cong_weak)

lemma gameO6_move8:
  "minimax [Some MarkO, Some MarkX, None, Some MarkX, Some MarkX, Some MarkO, Some MarkO, Some MarkO, Some MarkX]
     MarkO MarkX True NegInf PosInf 0 =
   (\<lparr>index = Some 2, score = Fin 0\<rparr>,
    [Some MarkO, Some MarkX, None, Some MarkX, Some MarkX, Some MarkO, Some MarkO, Some MarkO, Some MarkX])"
  by (simp only: minimax9 cong: if_weak_cong option.case_cong_weak)

lemma gameO6:
  "selfPlay 8 [None, None, None, None, None, None, Some MarkO, None, None] MarkX u =
   [Some MarkO, Some MarkX, Some MarkO, Some MarkX, Some MarkX, Some MarkO, Some MarkO, Some MarkO, Some MarkX]"
proof -
  have s1: "selfPlay 8 [None, None, None, None, None, None, Some MarkO, None, None] MarkX u =
      selfPlay 7 [None, None, None, None, Some MarkX, None, Some MarkO, None, None] MarkO u"
    by (rule selfPlay_move[where k = 4, OF _ _ gameO6_move1])
       (simp_all add: evaluate_def checkWin_def WINNING_LINES_def lineComplete_def boardGet_def
          isDraw_def isNull_def other_def numeral_nat)
  have s2: "selfPlay 7 [None, None, None, None, Some MarkX, None, Some MarkO, None, None] MarkO u =
      selfPlay 6 [Some MarkO, None, None, None, Some MarkX, None, Some MarkO, None, None] MarkX u"
    by (rule selfPlay_move[where k = 0, OF _ _ gameO6_move2])
       (simp_all add: evaluate_def checkWin_def WINNING_LINES_def lineComplete_def boardGet_def
          isDraw_def isNull_def other_def numeral_nat)
  have s3: "selfPlay 6 [Some MarkO, None, None, None, Some MarkX, None, Some MarkO, None, None] MarkX u =
      selfPlay 5 [Some MarkO, None, None, Some MarkX, Some MarkX, None, Some MarkO, None, None] MarkO u"
    by (rule selfPlay_move[where k = 3, OF _ _ gameO6_move3])
       (simp_all add: evaluate_def checkWin_def WINNING_LINES_def lineComplete_def boardGet_def
          isDraw_def isNull_def other_def numeral_nat)
  have s4: "selfPlay 5 [Some MarkO, None, None, Some MarkX, Some MarkX, None, Some MarkO, None, None] MarkO u =
      selfPlay 4 [Some MarkO, None, None, Some MarkX, Some MarkX, Some MarkO, Some MarkO, None, None] MarkX u"
    by (rule selfPlay_move[where k = 5, OF _ _ gameO6_move4])
       (simp_all add: evaluate_def checkWin_def WINNING_LINES_def lineComplete_def boardGet_def
          isDraw_def isNull_def other_def numeral_nat)
  have s5: "selfPlay 4 [Some MarkO, None, None, Some MarkX, Some MarkX, Some MarkO, Some MarkO, None, None] MarkX u =
      selfPlay 3 [Some MarkO, Some MarkX, None, Some MarkX, Some MarkX, Some MarkO, Some MarkO, None, None] MarkO u"
    by (rule selfPlay_move[where k = 1, OF _ _ gameO6_move5])
       (simp_all add: evaluate_def checkWin_def WINNING_LINES_def lineComplete_def boardGet_def
          isDraw_def isNull_def other_def numeral_nat)
  have s6: "selfPlay 3 [Some MarkO, Some MarkX, None, Some MarkX, Some MarkX, Some MarkO, Some MarkO, None, None] MarkO u =
      selfPlay 2 [Some MarkO, Some MarkX, None, Some MarkX, Some MarkX, Some MarkO, Some MarkO, Some MarkO, None] MarkX u"
    by (rule selfPlay_move[where k = 7, OF _ _ gameO6_move6])
       (simp_all add: evaluate_def checkWin_def WINNING_LINES_def lineComplete_def boardGet_def
          isDraw_def isNull_def other_def numeral_nat)
  have s7: "selfPlay 2 [Some MarkO, Some MarkX, None, Some MarkX, Some MarkX, Some MarkO, Some MarkO, Some MarkO, None] MarkX u =
      selfPlay 1 [Some MarkO, Some MarkX, None, Some MarkX, Some MarkX, Some MarkO, Some MarkO, Some MarkO, Some MarkX] MarkO u"
    by (rule selfPlay_move[where k = 8, OF _ _ gameO6_move7])
       (simp_all add: evaluate_def checkWin_def WINNING_LINES_def lineComplete_def boardGet_def
          isDraw_def isNull_def other_def numeral_nat)
  have s8: "selfPlay 1 [Some MarkO, Some MarkX, None, Some MarkX, Some MarkX, Some MarkO, Some MarkO, Some MarkO, Some MarkX] MarkO u =
      selfPlay 0 [Some MarkO, Some MarkX, Some MarkO, Some MarkX, Some MarkX, Some MarkO, Some MarkO, Some MarkO, Some MarkX] MarkX u"
    by (rule selfPlay_move[where k = 2, OF _ _ gameO6_move8])
       (simp_all add: evaluate_def checkWin_def WINNING_LINES_def lineComplete_def boardGet_def
          isDraw_def isNull_def other_def numeral_nat)
  show ?thesis
    unfolding s1 s2 s3 s4 s5 s6 s7 s8 by simp
qed

lemma gameO8_move1:
  "minimax [None, None, None, None, None, None, None, None, Some MarkO]
     MarkX MarkO True NegInf PosInf 0 =
   (\<lparr>index = Some 4, score = Fin 0\<rparr>,
    [None, None, None, None, None, None, None, None, Some MarkO])"
  by (simp only: minimax9 cong: if_weak_cong option.case_cong_weak)

lemma gameO8_move2:
  "minimax [None, None, None, None, Some MarkX, None, None, None, Some MarkO]
     MarkO MarkX True NegInf PosInf 0 =
   (\<lparr>index = Some 0, score = Fin 0\<rparr>,
    [None, None, None, None, Some MarkX, None, None, None, Some MarkO])"
  by (simp only: minimax9 cong: if_weak_cong option.case_cong_weak)

lemma gameO8_move3:
  "minimax [Some MarkO, None, None, None, Some MarkX, None, None, None, Some MarkO]
     MarkX MarkO True NegInf PosInf 0 =
   (\<lparr>index = Some 1, score = Fin 0\<rparr>,
    [Some MarkO, None, None, None, Some MarkX, None, None, None, Some MarkO])"
  by (simp only: minimax9 cong: if_weak_cong option.case_cong_weak)

lemma gameO8_move4:
  "minimax [Some MarkO, Some MarkX, None, None, Some MarkX, None, None, None, Some MarkO]
     MarkO MarkX True NegInf PosInf 0 =
   (\<lparr>index = Some 7, score = Fin 0\<rparr>,
    [Some MarkO, Some MarkX, None, None, Some MarkX, None, None, None, Some MarkO])"
  by (simp only: minimax9 cong: if_weak_cong option.case_cong_weak)

lemma gameO8_move5:
  "minimax [Some MarkO, Some MarkX, None, None, Some MarkX, None, None, Some MarkO, Some MarkO]
     MarkX MarkO True NegInf PosInf 0 =
   (\<lparr>index = Some 6, score = Fin 0\<rparr>,
    [Some MarkO, Some MarkX, None, None, Some MarkX, None, None, Some MarkO, Some MarkO])"
  by (simp only: minimax9 cong: if_weak_cong option.case_cong_weak)

lemma gameO8_move6:
  "minimax [Some MarkO, Some MarkX, None, None, Some MarkX, None, Some MarkX, Some MarkO, Some MarkO]
     MarkO MarkX True NegInf PosInf 0 =
   (\<lparr>index = Some 2, score = Fin 0\<rparr>,
    [Some MarkO, Some MarkX, None, None, Some MarkX, None, Some MarkX, Some MarkO, Some MarkO])"
  by (simp only: minimax9 cong: if_weak_cong option.case_cong_weak)

lemma gameO8_move7:
  "minimax [Some MarkO, Some MarkX, Some MarkO, None, Some MarkX, None, Some MarkX, Some MarkO, Some MarkO]
     MarkX MarkO True NegInf PosInf 0 =
   (\<lparr>index = Some 5, score = Fin 0\<rparr>,
    [Some MarkO, Some MarkX, Some MarkO, None, Some MarkX, None, Some MarkX, Some MarkO, Some MarkO])"
  by (simp only: minimax9 cong: if_weak_cong option.case_cong_weak)

lemma gameO8_move8:
  "minimax [Some MarkO, Some MarkX, Some MarkO, None, Some MarkX, Some MarkX, Some MarkX, Some MarkO, Some MarkO]
     MarkO MarkX True NegInf PosInf 0 =
   (\<lparr>index = Some 3, score = Fin 0\<rparr>,
    [Some MarkO, Some MarkX, Some MarkO, None, Some MarkX, Some MarkX, Some MarkX, Some MarkO, Some MarkO])"
  by (simp only: minimax9 cong: if_weak_cong option.case_cong_weak)

lemma gameO8:
  "selfPlay 8 [None, None, None, None, None, None, None, None, Some MarkO] MarkX u =
   [Some MarkO, Some MarkX, Some MarkO, Some MarkO, Some MarkX, Some MarkX, Some MarkX, Some MarkO, Some MarkO]"
proof -
  have s1: "selfPlay 8 [None, None, None, None, None, None, None, None, Some MarkO] MarkX u =
      selfPlay 7 [None, None, None, None, Some MarkX, None, None, None, Some MarkO] MarkO u"
    by (rule selfPlay_move[where k = 4, OF _ _ gameO8_move1])
       (simp_all add: evaluate_def checkWin_def WINNING_LINES_def lineComplete_def boardGet_def
          isDraw_def isNull_def other_def numeral_nat)
  have s2: "selfPlay 7 [None, None, None, None, Some MarkX, None, None, None, Some MarkO] MarkO u =
      selfPlay 6 [Some MarkO, None, None, None, Some MarkX, None, None, None, Some MarkO] MarkX u"
    by (rule selfPlay_move[where k = 0, OF _ _ gameO8_move2])
       (simp_all add: evaluate_def checkWin_def WINNING_LINES_def lineComplete_def boardGet_def
          isDraw_def isNull_def other_def numeral_nat)
  have s3: "selfPlay 6 [Some MarkO, None, None, None, Some MarkX, None, None, None, Some MarkO] MarkX u =
      selfPlay 5 [Some MarkO, Some MarkX, None, None, Some MarkX, None, None, None, Some MarkO] MarkO u"
    by (rule selfPlay_move[where k = 1, OF _ _ gameO8_move3])
       (simp_all add: evaluate_def checkWin_def WINNING_LINES_def lineComplete_def boardGet_def
          isDraw_def isNull_def other_def numeral_nat)
  have s4: "selfPlay 5 [Some MarkO, Some MarkX, None, None, Some MarkX, None, None, None, Some MarkO] MarkO u =
      selfPlay 4 [Some MarkO, Some MarkX, None, None, Some MarkX, None, None, Some MarkO, Some MarkO] MarkX u"
    by (rule selfPlay_move[where k = 7, OF _ _ gameO8_move4])
       (simp_all add: evaluate_def checkWin_def WINNING_LINES_def lineComplete_def boardGet_def
          isDraw_def isNull_def other_def numeral_nat)
  have s5: "selfPlay 4 [Some MarkO, Some MarkX, None, None, Some MarkX, None, None, Some MarkO, Some MarkO] MarkX u =
      selfPlay 3 [Some MarkO, Some MarkX, None, None, Some MarkX, None, Some MarkX, Some MarkO, Some MarkO] MarkO u"
    by (rule selfPlay_move[where k = 6, OF _ _ gameO8_move5])
       (simp_all add: evaluate_def checkWin_def WINNING_LINES_def lineComplete_def boardGet_def
          isDraw_def isNull_def other_def numeral_nat)
  have s6: "selfPlay 3 [Some MarkO, Some MarkX, None, None, Some MarkX, None, Some MarkX, Some MarkO, Some MarkO] MarkO u =
      selfPlay 2 [Some MarkO, Some MarkX, Some MarkO, None, Some MarkX, None, Some MarkX, Some MarkO, Some MarkO] MarkX u"
    by (rule selfPlay_move[where k = 2, OF _ _ gameO8_move6])
       (simp_all add: evaluate_def checkWin_def WINNING_LINES_def lineComplete_def boardGet_def
          isDraw_def isNull_def other_def numeral_nat)
  have s7: "selfPlay 2 [Some MarkO, Some MarkX, Some MarkO, None, Some MarkX, None, Some MarkX, Some MarkO, Some MarkO] MarkX u =
      selfPlay 1 [Some MarkO, Some MarkX, Some MarkO, None, Some MarkX, Some MarkX, Some MarkX, Some MarkO, Some MarkO] MarkO u"
    by (rule selfPlay_move[where k = 5, OF _ _ gameO8_move7])
       (simp_all add: evaluate_def checkWin_def WINNING_LINES_def lineComplete_def boardGet_def
          isDraw_def isNull_def other_def numeral_nat)
  have s8: "selfPlay 1 [Some MarkO, Some MarkX, Some MarkO, None, Some MarkX, Some MarkX, Some MarkX, Some MarkO, Some MarkO] MarkO u =
      selfPlay 0 [Some MarkO, Some MarkX, Some MarkO, Some MarkO, Some MarkX, Some MarkX, Some MarkX, Some MarkO, Some MarkO] MarkX u"
    by (rule selfPlay_move[where k = 3, OF _ _ gameO8_move8])
       (simp_all add: evaluate_def checkWin_def WINNING_LINES_def lineComplete_def boardGet_def
          isDraw_def isNull_def other_def numeral_nat)
  show ?thesis
    unfolding s1 s2 s3 s4 s5 s6 s7 s8 by simp
qed

lemma full_board_Draw:
  "evaluate [Some MarkX, Some MarkX, Some MarkO, Some MarkO, Some MarkO, Some MarkX, Some MarkX, Some MarkO, Some MarkX] = Draw"
  "evaluate [Some MarkX, Some MarkO, Some MarkX, Some MarkO, Some MarkO, Some MarkX, Some MarkX, Some MarkX, Some MarkO] = Draw"
  "evaluate [Some MarkX, Some MarkO, Some MarkX, Some MarkX, Some MarkO, Some MarkO, Some MarkO, Some MarkX, Some MarkX] = Draw"
  "evaluate [Some MarkO, Some MarkO, Some MarkX, Some MarkX, Some MarkX, Some MarkO, Some MarkO, Some MarkX, Some MarkO] = Draw"
  "evaluate [Some MarkO, Some MarkX, Some MarkO, Some MarkX, Some MarkX, Some MarkO, Some MarkO, Some MarkO, Some MarkX] = Draw"
  "evaluate [Some MarkO, Some MarkX, Some MarkO, Some MarkO, Some MarkX, Some MarkX, Some MarkX, Some MarkO, Some MarkO] = Draw"
  by (simp_all add: evaluate_def checkWin_def WINNING_LINES_def lineComplete_def boardGet_def
      isDraw_def)

lemmas games = gameX0 gameX2 gameX6 gameX8 gameO0 gameO2 gameO6 gameO8

lemma selfPlay_index:
  assumes "evaluate b = InProgress" "aiMinimaxMove b m u = Some (int k)" "isNull b k"
  shows "selfPlay (Suc n) b m u = selfPlay n (b[k := Some m]) (other m) u"
  using assms by (simp add: idxIsNull_def Let_def)

lemma opening_move:
  assumes "0 \<le> u" "u < 1"
  shows "\<exists>c \<in> {0, 2, 6, 8}.
           selfPlay 9 (replicate 9 None) m u =
           selfPlay 8 ((replicate 9 None)[c := Some m]) (other m) u"
proof -
  let ?E = "replicate 9 None :: board"
  obtain j where j: "j < length [0, 2, 6, 8 :: nat]"
      "randomPick [0, 2, 6, 8] u = Some (int ([0, 2, 6, 8] ! j))"
    using randomPick_valid[of "[0, 2, 6, 8]" u, OF list.distinct(2) assms] by blast
  define c where "c = [0, 2, 6, 8 :: nat] ! j"
  from j(1) have "j < 4" by simp
  then have "j = 0 \<or> j = 1 \<or> j = 2 \<or> j = 3" by arith
  then have c: "c \<in> {0, 2, 6, 8}" unfolding c_def by auto
  have pick: "aiMinimaxMove ?E m u = Some (int c)"
    using j(2) by (simp add: aiMinimaxMove_def c_def numeral_nat)
  have ev: "evaluate ?E = InProgress"
    by (simp add: evaluate_def checkWin_def WINNING_LINES_def lineComplete_def boardGet_def
        isDraw_def numeral_nat)
  have nl: "isNull ?E c"
    using c by (auto simp: isNull_def boardGet_def)
  from selfPlay_index[OF ev pick nl, of 8]
  have "selfPlay 9 ?E m u = selfPlay 8 (?E[c := Some m]) (other m) u"
    by simp
  with c show ?thesis by blast
qed

lemma opening_boards:
  "(replicate 9 None)[0 := Some m] = [Some m, None, None, None, None, None, None, None, None]"
  "(replicate 9 None)[2 := Some m] = [None, None, Some m, None, None, None, None, None, None]"
  "(replicate 9 None)[6 := Some m] = [None, None, None, None, None, None, Some m, None, None]"
  "(replicate 9 None)[8 := Some m] = [None, None, None, None, None, None, None, None, Some m]"
  by (simp_all add: numeral_nat)

text \<open>
  Claim C1. Both marks choose their moves with the Optimal Strategy, from the all-empty
  board, whichever mark opens and whichever corner the opening book draws (\<open>u\<close> is the
  value of \<open>Math.random()\<close>, read only on the all-empty board): the game ends within nine
  moves, and its final board evaluates to \<open>Draw\<close>.
\<close>

theorem C1_optimal_selfplay_draws:
  assumes "0 \<le> u" "u < 1"
  shows "evaluate (selfPlay 9 (replicate 9 None) m u) = Draw"
proof -
  from opening_move[OF assms, of m]
  obtain c where c: "c \<in> {0, 2, 6, 8}"
    and step: "selfPlay 9 (replicate 9 None) m u =
               selfPlay 8 ((replicate 9 None)[c := Some m]) (other m) u"
    by blast
  have o: "other MarkX = MarkO" "other MarkO = MarkX"
    by (simp_all add: other_def)
  have "evaluate (selfPlay 8 ((replicate 9 None)[c := Some m]) (other m) u) = Draw"
  proof (cases m)
    case MarkX
    from c show ?thesis
      unfolding MarkX o
      by (elim insertE emptyE) (simp_all only: opening_boards games full_board_Draw)
  next
    case MarkO
    from c show ?thesis
      unfolding MarkO o
      by (elim insertE emptyE) (simp_all only: opening_boards games full_board_Draw)
  qed
  with step show ?thesis by (simp only:)
qed

theorem C1_optimal_selfplay_draws_witness:
  "evaluate (selfPlay 9 (replicate 9 None) MarkX 0) = Draw
   \<and> evaluate (selfPlay 9 (replicate 9 None) MarkO (3 / 4)) = Draw"
  using C1_optimal_selfplay_draws[of 0 MarkX] C1_optimal_selfplay_draws[of "3 / 4" MarkO]
  by simp

end
